theory Spec2Isabelle
  imports Main "HOL-Library.Sublist" "HOL-Library.Char_ord" "HOL-Library.List_Lexorder"
begin

section \<open>Text\<close>

text \<open>
  A Python \<^verbatim>\<open>str\<close> is a sequence of code points. The model is \<^typ>\<open>string\<close>: one
  \<^typ>\<open>char\<close> per code point, covering the code points U+0000 to U+00FF. The character
  tables below are those of CPython on that range: \<^verbatim>\<open>str.isspace\<close> (which is also the
  class \<^verbatim>\<open>\s\<close> of \<^verbatim>\<open>re\<close> and what \<^verbatim>\<open>str.strip\<close> removes), the decimal digits
  (\<^verbatim>\<open>\d\<close>), the word characters (\<^verbatim>\<open>\w\<close>: alphanumerics and the underscore) and
  \<^verbatim>\<open>str.lower\<close>. Strings are compared as Python compares them: by code point,
  lexicographically.
\<close>

definition cp :: "char \<Rightarrow> nat" where
  "cp c = of_char c"

definition in_range :: "nat \<Rightarrow> nat \<Rightarrow> char \<Rightarrow> bool" where
  "in_range lo hi c \<longleftrightarrow> lo \<le> cp c \<and> cp c \<le> hi"

definition is_space :: "char \<Rightarrow> bool" where
  "is_space c \<longleftrightarrow> in_range 0x09 0x0D c \<or> in_range 0x1C 0x20 c \<or> cp c = 0x85 \<or> cp c = 0xA0"

definition is_digit :: "char \<Rightarrow> bool" where
  "is_digit c \<longleftrightarrow> in_range 0x30 0x39 c"

definition is_upper_az :: "char \<Rightarrow> bool" where
  "is_upper_az c \<longleftrightarrow> in_range 0x41 0x5A c"

definition is_lower_az :: "char \<Rightarrow> bool" where
  "is_lower_az c \<longleftrightarrow> in_range 0x61 0x7A c"

definition is_word :: "char \<Rightarrow> bool" where
  "is_word c \<longleftrightarrow> is_digit c \<or> is_upper_az c \<or> is_lower_az c \<or> cp c = 0x5F
     \<or> cp c = 0xAA \<or> cp c = 0xB2 \<or> cp c = 0xB3 \<or> cp c = 0xB5 \<or> cp c = 0xB9 \<or> cp c = 0xBA
     \<or> in_range 0xBC 0xBE c \<or> in_range 0xC0 0xD6 c \<or> in_range 0xD8 0xF6 c
     \<or> in_range 0xF8 0xFF c"

definition lower_char :: "char \<Rightarrow> char" where
  "lower_char c =
     (if is_upper_az c \<or> in_range 0xC0 0xD6 c \<or> in_range 0xD8 0xDE c
      then char_of (cp c + 32) else c)"

definition lower :: "string \<Rightarrow> string" where
  "lower s = map lower_char s"

definition strip :: "string \<Rightarrow> string" where
  "strip s = rev (dropWhile is_space (rev (dropWhile is_space s)))"

text \<open>\<^verbatim>\<open>s.split("\n")\<close>: the pieces between line feeds; never the empty list.\<close>

fun split_nl :: "string \<Rightarrow> string list" where
  "split_nl [] = [[]]"
| "split_nl (c # cs) =
     (if c = CHR 0x0A then [] # split_nl cs
      else (case split_nl cs of [] \<Rightarrow> [[c]] | l # ls \<Rightarrow> (c # l) # ls))"

text \<open>\<^verbatim>\<open>"\n".join(lines)\<close>.\<close>

fun join_nl :: "string list \<Rightarrow> string" where
  "join_nl [] = []"
| "join_nl [l] = l"
| "join_nl (l # m # ls) = l @ CHR 0x0A # join_nl (m # ls)"

text \<open>\<^verbatim>\<open>sub in s\<close> on strings: \<open>sub\<close> occurs in \<open>s\<close> as a contiguous block.\<close>

fun str_contains :: "string \<Rightarrow> string \<Rightarrow> bool" where
  "str_contains sub [] \<longleftrightarrow> sub = []"
| "str_contains sub (c # cs) \<longleftrightarrow> prefix sub (c # cs) \<or> str_contains sub cs"

section \<open>Regular expressions\<close>

text \<open>
  The patterns of the program, as \<^verbatim>\<open>re\<close> parses them. \<open>Lit\<close> is a literal,
  \<open>LitIC\<close> a literal of a pattern compiled with \<^verbatim>\<open>re.IGNORECASE\<close>, \<open>In\<close> a
  character class, \<open>Cat\<close> a sequence, \<open>Opt\<close> a greedy \<^verbatim>\<open>(?:...)?\<close>, \<open>Rep P m n\<close>
  a greedy repetition of a character class, from \<open>m\<close> to \<open>n\<close> times (no upper bound
  when \<open>n\<close> is \<open>None\<close>), and \<open>Boundary\<close> is \<^verbatim>\<open>\b\<close>.

  A matching state is the character before the position (the word boundary looks at it)
  and the text from the position on. \<open>ends r st\<close> lists the states in which a match of
  \<open>r\<close> from \<open>st\<close> can end, in the order in which the backtracking matcher tries them;
  the match it reports is the first.
\<close>

datatype regex =
    Eps
  | Lit char
  | LitIC char
  | In "char \<Rightarrow> bool"
  | Cat regex regex
  | Opt regex
  | Rep "char \<Rightarrow> bool" nat "nat option"
  | Boundary

type_synonym mstate = "char option \<times> string"

fun advance :: "nat \<Rightarrow> mstate \<Rightarrow> mstate" where
  "advance 0 st = st"
| "advance (Suc n) (p, []) = (p, [])"
| "advance (Suc n) (p, c # cs) = advance n (Some c, cs)"

definition word_before :: "mstate \<Rightarrow> bool" where
  "word_before st = (case fst st of None \<Rightarrow> False | Some c \<Rightarrow> is_word c)"

definition word_after :: "mstate \<Rightarrow> bool" where
  "word_after st = (case snd st of [] \<Rightarrow> False | c # _ \<Rightarrow> is_word c)"

definition one_char :: "(char \<Rightarrow> bool) \<Rightarrow> mstate \<Rightarrow> mstate list" where
  "one_char P st = (case snd st of [] \<Rightarrow> [] | c # cs \<Rightarrow> if P c then [(Some c, cs)] else [])"

definition rep_counts :: "(char \<Rightarrow> bool) \<Rightarrow> nat \<Rightarrow> nat option \<Rightarrow> string \<Rightarrow> nat list" where
  "rep_counts P m n s =
     (let k = length (takeWhile P s);
          k' = (case n of None \<Rightarrow> k | Some b \<Rightarrow> min k b)
      in rev [m ..< Suc k'])"

fun ends :: "regex \<Rightarrow> mstate \<Rightarrow> mstate list" where
  "ends Eps st = [st]"
| "ends (Lit c) st = one_char (\<lambda>x. x = c) st"
| "ends (LitIC c) st = one_char (\<lambda>x. lower_char x = lower_char c) st"
| "ends (In P) st = one_char P st"
| "ends (Cat a b) st = concat (map (ends b) (ends a st))"
| "ends (Opt a) st = ends a st @ [st]"
| "ends (Rep P m n) st = map (\<lambda>j. advance j st) (rep_counts P m n (snd st))"
| "ends Boundary st = (if word_before st \<noteq> word_after st then [st] else [])"

text \<open>The length of the match that starts at a state, if there is one.\<close>

definition match_len :: "regex \<Rightarrow> mstate \<Rightarrow> nat option" where
  "match_len r st =
     (case ends r st of [] \<Rightarrow> None | e # _ \<Rightarrow> Some (length (snd st) - length (snd e)))"

text \<open>\<^verbatim>\<open>pattern.search(text)\<close>, as a truth value: some position starts a match.\<close>

fun search_from :: "regex \<Rightarrow> char option \<Rightarrow> string \<Rightarrow> bool" where
  "search_from r p [] \<longleftrightarrow> ends r (p, []) \<noteq> []"
| "search_from r p (c # cs) \<longleftrightarrow> ends r (p, c # cs) \<noteq> [] \<or> search_from r (Some c) cs"

definition re_search :: "regex \<Rightarrow> string \<Rightarrow> bool" where
  "re_search r text = search_from r None text"

lemma length_snd_advance: "length (snd (advance n st)) = length (snd st) - n"
  by (induction n st rule: advance.induct) simp_all

lemma match_len_pos_nonempty: "match_len r (p, s) = Some n \<Longrightarrow> n \<noteq> 0 \<Longrightarrow> s \<noteq> []"
  by (auto simp: match_len_def split: list.splits)

text \<open>
  \<^verbatim>\<open>pattern.findall(text)\<close> for a pattern without capturing groups: the matched
  texts, left to right, without overlap. After an empty match the scan moves on by one
  character.
\<close>

function findall_from :: "regex \<Rightarrow> mstate \<Rightarrow> string list" where
  "findall_from r (p, s) =
     (case match_len r (p, s) of
        None \<Rightarrow> (case s of [] \<Rightarrow> [] | c # cs \<Rightarrow> findall_from r (Some c, cs))
      | Some n \<Rightarrow>
          take n s #
          (if n = 0 then (case s of [] \<Rightarrow> [] | c # cs \<Rightarrow> findall_from r (Some c, cs))
           else findall_from r (advance n (p, s))))"
  by pat_completeness auto
termination
proof (relation "measure (\<lambda>(r, st). length (snd st))")
  fix r :: regex and p :: "char option" and s :: string and n :: nat
  assume "match_len r (p, s) = Some n" "n \<noteq> 0"
  then have "s \<noteq> []" by (rule match_len_pos_nonempty)
  with \<open>n \<noteq> 0\<close> show "((r, advance n (p, s)), (r, p, s)) \<in> measure (\<lambda>(r, st). length (snd st))"
    by (simp add: length_snd_advance)
qed simp_all

definition re_findall :: "regex \<Rightarrow> string \<Rightarrow> string list" where
  "re_findall r text = findall_from r (None, text)"

text \<open>
  \<^verbatim>\<open>re.sub(pattern, repl, text)\<close> for a replacement without group references: every
  match, left to right, is replaced by \<open>repl\<close>.
\<close>

function sub_from :: "regex \<Rightarrow> string \<Rightarrow> mstate \<Rightarrow> string" where
  "sub_from r repl (p, s) =
     (case match_len r (p, s) of
        None \<Rightarrow> (case s of [] \<Rightarrow> [] | c # cs \<Rightarrow> c # sub_from r repl (Some c, cs))
      | Some n \<Rightarrow>
          repl @
          (if n = 0 then (case s of [] \<Rightarrow> [] | c # cs \<Rightarrow> c # sub_from r repl (Some c, cs))
           else sub_from r repl (advance n (p, s))))"
  by pat_completeness auto
termination
proof (relation "measure (\<lambda>(r, repl, st). length (snd st))")
  fix r :: regex and repl :: string and p :: "char option" and s :: string and n :: nat
  assume "match_len r (p, s) = Some n" "n \<noteq> 0"
  then have "s \<noteq> []" by (rule match_len_pos_nonempty)
  with \<open>n \<noteq> 0\<close>
  show "((r, repl, advance n (p, s)), (r, repl, p, s)) \<in> measure (\<lambda>(r, repl, st). length (snd st))"
    by (simp add: length_snd_advance)
qed simp_all

declare findall_from.simps [simp del] sub_from.simps [simp del]

definition re_sub :: "regex \<Rightarrow> string \<Rightarrow> string \<Rightarrow> string" where
  "re_sub r repl text = sub_from r repl (None, text)"

section \<open>Cleaning\<close>

text \<open>The pattern \<^verbatim>\<open>\s+\<close>.\<close>

definition WS_PLUS :: regex where
  "WS_PLUS = Rep is_space 1 None"

text \<open>
  \<^verbatim>\<open>clean_text\<close>. The argument is a string, so the \<^verbatim>\<open>isinstance\<close> test passes.
\<close>

definition clean_text :: "string \<Rightarrow> string" where
  "clean_text text = strip (re_sub WS_PLUS '' '' text)"

definition clean_line :: "string \<Rightarrow> string" where
  "clean_line ln = strip (re_sub WS_PLUS '' '' ln)"

text \<open>\<^verbatim>\<open>clean_text_keep_lines\<close>: every line cleaned, the empty ones dropped.\<close>

definition clean_text_keep_lines :: "string \<Rightarrow> string" where
  "clean_text_keep_lines text =
     join_nl (filter (\<lambda>ln. ln \<noteq> []) (map clean_line (split_nl text)))"

section \<open>Basic info extraction\<close>

text \<open>\<^verbatim>\<open>seq\<close> writes a pattern as the list of its items.\<close>

definition seq :: "regex list \<Rightarrow> regex" where
  "seq rs = foldr Cat rs Eps"

definition az :: "char \<Rightarrow> bool" where
  "az c \<longleftrightarrow> is_upper_az c \<or> is_lower_az c"

definition az09 :: "char \<Rightarrow> bool" where
  "az09 c \<longleftrightarrow> az c \<or> in_range 0x30 0x39 c"

text \<open>\<^verbatim>\<open>[A-Za-z0-9._%+-]+@[A-Za-z0-9.-]+\.[A-Za-z]{2,}\<close>\<close>

definition EMAIL_REGEX :: regex where
  "EMAIL_REGEX =
     seq [Rep (\<lambda>c. az09 c \<or> c \<in> set ''._%+-'') 1 None,
          Lit CHR ''@'',
          Rep (\<lambda>c. az09 c \<or> c \<in> set ''.-'') 1 None,
          Lit CHR ''.'',
          Rep az 2 None]"

text \<open>\<^verbatim>\<open>(?:\+?91[\s\-]*)?[6-9]\d{9}\<close>\<close>

definition PHONE_REGEX :: regex where
  "PHONE_REGEX =
     seq [Opt (seq [Opt (Lit CHR ''+''), Lit CHR ''9'', Lit CHR ''1'',
                    Rep (\<lambda>c. is_space c \<or> c = CHR ''-'') 0 None]),
          In (in_range 0x36 0x39),
          Rep is_digit 9 (Some 9)]"

text \<open>\<^verbatim>\<open>list(dict.fromkeys(xs))\<close>: the keys in the order of their first insertion.\<close>

definition fromkeys :: "'a list \<Rightarrow> 'a list" where
  "fromkeys xs = fold (\<lambda>x ks. if x \<in> set ks then ks else ks @ [x]) xs []"

record basic_info =
  info_email :: string
  info_emails :: "string list"
  info_phone :: string
  info_phones :: "string list"

definition extract_basic_info :: "string \<Rightarrow> basic_info" where
  "extract_basic_info text =
     (let emails = re_findall EMAIL_REGEX text;
          phones = re_findall PHONE_REGEX text
      in \<lparr>info_email = (case emails of [] \<Rightarrow> ''Not found'' | e # _ \<Rightarrow> e),
          info_emails = fromkeys emails,
          info_phone = (case phones of [] \<Rightarrow> ''Not found'' | p # _ \<Rightarrow> p),
          info_phones = fromkeys phones\<rparr>)"

section \<open>Skills extraction\<close>

definition SKILLS :: "string list" where
  "SKILLS =
     [''python'', ''java'', ''c'', ''c++'', ''c#'', ''javascript'', ''typescript'', ''php'',
      ''go'', ''ruby'', ''kotlin'', ''swift'',
      ''html'', ''css'', ''react'', ''angular'', ''vue'', ''node.js'', ''django'', ''flask'',
      ''sql'', ''mysql'', ''postgresql'', ''mongodb'', ''pandas'', ''numpy'',
      ''machine learning'', ''deep learning'', ''data analysis'', ''data science'',
      ''tensorflow'', ''pytorch'', ''scikit-learn'',
      ''excel'', ''git'', ''docker'', ''kubernetes'', ''linux'']"

text \<open>
  \<^verbatim>\<open>re.compile(r"\b" + re.escape(s) + r"\b", re.IGNORECASE)\<close>: after escaping,
  every character of \<open>s\<close> is a literal.
\<close>

definition skill_pattern :: "string \<Rightarrow> regex" where
  "skill_pattern s = Cat Boundary (Cat (seq (map LitIC s)) Boundary)"

definition build_skill_patterns :: "string list \<Rightarrow> (string \<times> regex) list \<times> (string \<times> regex) list" where
  "build_skill_patterns skills =
     (map (\<lambda>s. (s, skill_pattern s)) (filter (\<lambda>s. CHR '' '' \<in> set s) skills),
      map (\<lambda>s. (s, skill_pattern s)) (filter (\<lambda>s. CHR '' '' \<notin> set s) skills))"

definition MULTIWORD_SKILLS :: "(string \<times> regex) list" where
  "MULTIWORD_SKILLS = fst (build_skill_patterns SKILLS)"

definition SINGLEWORD_SKILLS :: "(string \<times> regex) list" where
  "SINGLEWORD_SKILLS = snd (build_skill_patterns SKILLS)"

text \<open>
  \<^verbatim>\<open>found.add(skill)\<close> on a set, kept as the list of its members in the order in
  which they came in.
\<close>

definition set_add :: "'a \<Rightarrow> 'a list \<Rightarrow> 'a list" where
  "set_add x found = (if x \<in> set found then found else found @ [x])"

definition add_matching :: "string \<Rightarrow> (string \<times> regex) list \<Rightarrow> string list \<Rightarrow> string list" where
  "add_matching text pats found =
     fold (\<lambda>(skill, pattern) f. if re_search pattern text then set_add skill f else f) pats found"

definition extract_skills :: "string \<Rightarrow> string list" where
  "extract_skills text =
     (let found = add_matching text MULTIWORD_SKILLS [];
          found = add_matching text SINGLEWORD_SKILLS found
      in sort_key lower found)"

section \<open>Education and experience extraction\<close>

definition EDU_KEYWORDS :: "string list" where
  "EDU_KEYWORDS =
     [''education'', ''academic'', ''degree'', ''degrees'', ''college'',
      ''university'', ''b.tech'', ''btech'', ''b.e'', ''be'', ''bachelor'',
      ''master'', ''m.tech'', ''mtech'', ''bsc'', ''msc'', ''diploma'']"

definition EXP_KEYWORDS :: "string list" where
  "EXP_KEYWORDS =
     [''experience'', ''work experience'', ''professional experience'',
      ''employment'', ''internship'', ''intern'', ''company'',
      ''organization'', ''worked'', ''job'', ''role'', ''position'']"

text \<open>\<^verbatim>\<open>any(kw in lower for kw in kws)\<close>\<close>

definition any_kw :: "string list \<Rightarrow> string \<Rightarrow> bool" where
  "any_kw kws lower_line = list_ex (\<lambda>kw. str_contains kw lower_line) kws"

text \<open>The body of the loop over the lines, on the two lists it appends to.\<close>

definition classify_line :: "string \<Rightarrow> string list \<times> string list \<Rightarrow> string list \<times> string list" where
  "classify_line line acc =
     (let lower_line = lower line; education_lines = fst acc; experience_lines = snd acc
      in if length lower_line < 3 then acc
         else if any_kw EDU_KEYWORDS lower_line then (education_lines @ [line], experience_lines)
         else if any_kw EXP_KEYWORDS lower_line then (education_lines, experience_lines @ [line])
         else acc)"

definition dedup :: "string list \<Rightarrow> string list" where
  "dedup sq =
     snd (fold (\<lambda>x (seen, out). if x \<in> seen then (seen, out) else (insert x seen, out @ [x]))
            sq ({}, []))"

text \<open>The stripped, non-empty lines of a text.\<close>

definition section_lines :: "string \<Rightarrow> string list" where
  "section_lines text = map strip (filter (\<lambda>ln. strip ln \<noteq> []) (split_nl text))"

definition extract_sections :: "string \<Rightarrow> string list \<times> string list" where
  "extract_sections text =
     (let acc = fold classify_line (section_lines text) ([], [])
      in (dedup (fst acc), dedup (snd acc)))"

section \<open>The parser\<close>

text \<open>
  The dictionary a parse returns, with the keys the program ever gives it; a field is
  \<open>None\<close> when the dictionary has no such key. \<open>parsed_data\<close>, when present, is the
  empty dictionary. \<open>file_info\<close> is the dictionary the caller attaches after the parse
  (the file's name and size); its content is a parameter.
\<close>

record contact =
  email :: string
  phone :: string
  all_emails :: "string list"
  all_phones :: "string list"

record summary =
  total_skills_found :: nat
  education_lines :: nat
  experience_lines :: nat
  raw_text_length :: nat

record 'i resume =
  error :: "string option"
  parsed_data :: "unit option"
  contact :: "contact option"
  skills :: "string list option"
  education :: "string list option"
  experience :: "string list option"
  summary :: "summary option"
  file_info :: "'i option"

definition no_keys :: "'i resume" where
  "no_keys =
     \<lparr>error = None, parsed_data = None, contact = None, skills = None, education = None,
      experience = None, summary = None, file_info = None\<rparr>"

definition READ_ERRORS :: "string list" where
  "READ_ERRORS = [''PDF error:'', ''DOCX error:'', ''File not found!'', ''Unsupported'']"

text \<open>\<^verbatim>\<open>s.startswith(prefixes)\<close> with a tuple of prefixes.\<close>

definition startswith_any :: "string \<Rightarrow> string list \<Rightarrow> bool" where
  "startswith_any s ps = list_ex (\<lambda>p. prefix p s) ps"

text \<open>
  \<^verbatim>\<open>parse_resume\<close>, from the text that \<^verbatim>\<open>read_resume\<close> returned for the file:
  reading the file is the work of the PDF and DOCX libraries, and its result is the
  argument here. \<open>parse_with\<close> is the body of the function with the five steps it
  calls as parameters; \<open>parse_resume\<close> calls the program's own.
\<close>

definition parse_with ::
  "(string \<Rightarrow> string) \<Rightarrow> (string \<Rightarrow> string) \<Rightarrow> (string \<Rightarrow> basic_info) \<Rightarrow>
   (string \<Rightarrow> string list) \<Rightarrow> (string \<Rightarrow> string list \<times> string list) \<Rightarrow>
   string \<Rightarrow> 'i resume" where
  "parse_with clean clean_lines basic_step skills_step sections_step raw_text =
     (if startswith_any raw_text READ_ERRORS
      then no_keys\<lparr>error := Some raw_text, parsed_data := Some ()\<rparr>
      else
        (let cleaned_text = clean raw_text;
             cleaned_for_sections = clean_lines raw_text;
             basic = basic_step cleaned_text;
             sk = skills_step cleaned_text;
             sections = sections_step cleaned_for_sections;
             edu = fst sections;
             exp = snd sections
         in no_keys
             \<lparr>contact := Some \<lparr>email = info_email basic, phone = info_phone basic,
                                all_emails = info_emails basic, all_phones = info_phones basic\<rparr>,
              skills := Some sk,
              education := Some edu,
              experience := Some exp,
              summary := Some \<lparr>total_skills_found = length sk, education_lines = length edu,
                                experience_lines = length exp,
                                raw_text_length = length raw_text\<rparr>\<rparr>))"

definition parse_resume :: "string \<Rightarrow> 'i resume" where
  "parse_resume raw_text =
     parse_with clean_text clean_text_keep_lines extract_basic_info extract_skills
       extract_sections raw_text"

text \<open>\<^verbatim>\<open>result["file_info"] = info\<close>, as the caller does after the parse.\<close>

definition set_file_info :: "'i \<Rightarrow> 'i resume \<Rightarrow> 'i resume" where
  "set_file_info i r = r\<lparr>file_info := Some i\<rparr>"

section \<open>Skill search\<close>

datatype py_error = KeyError string

record skill_match =
  skill :: string
  match_type :: string

text \<open>
  An entry of the search result: the keys of the record's \<open>file_info\<close>, then
  \<open>matched_skills\<close>, \<open>total_skills\<close> and \<open>match_count\<close>, which win over any key of
  that name in \<open>file_info\<close>.
\<close>

record 'i search_hit =
  hit_info :: 'i
  matched_skills :: "skill_match list"
  total_skills :: nat
  match_count :: nat

text \<open>The body of the loop over a record's skills: the match it appends, if any.\<close>

definition match_skill :: "string \<Rightarrow> bool \<Rightarrow> bool \<Rightarrow> string \<Rightarrow> skill_match option" where
  "match_skill q case_sensitive partial_match resume_skill =
     (let resume_skill_clean = (if case_sensitive then resume_skill else lower resume_skill)
      in if partial_match then
           (if str_contains q resume_skill_clean \<or> str_contains resume_skill_clean q
            then Some \<lparr>skill = resume_skill,
                       match_type = (if length q < length resume_skill_clean
                                     then ''partial'' else ''exact'')\<rparr>
            else None)
         else
           (if q = resume_skill_clean
            then Some \<lparr>skill = resume_skill, match_type = ''exact''\<rparr>
            else None))"

definition find_matches :: "string \<Rightarrow> bool \<Rightarrow> bool \<Rightarrow> string list \<Rightarrow> skill_match list" where
  "find_matches q case_sensitive partial_match resume_skills =
     List.map_filter (match_skill q case_sensitive partial_match) resume_skills"

text \<open>\<^verbatim>\<open>resume.get("skills", [])\<close>\<close>

definition get_skills :: "'i resume \<Rightarrow> string list" where
  "get_skills r = (case skills r of None \<Rightarrow> [] | Some ss \<Rightarrow> ss)"

text \<open>
  The loop over the records. \<^verbatim>\<open>resume["file_info"]\<close> raises \<open>KeyError\<close> on a record
  that matches and has no such key.
\<close>

fun scan_resumes ::
  "string \<Rightarrow> bool \<Rightarrow> bool \<Rightarrow> 'i resume list \<Rightarrow> py_error + 'i search_hit list" where
  "scan_resumes q cs pm [] = Inr []"
| "scan_resumes q cs pm (r # rs) =
     (if error r \<noteq> None then scan_resumes q cs pm rs
      else
        (let resume_skills = get_skills r;
             matches = find_matches q cs pm resume_skills
         in if matches \<noteq> [] then
              (case file_info r of
                 None \<Rightarrow> Inl (KeyError ''file_info'')
               | Some i \<Rightarrow>
                   (case scan_resumes q cs pm rs of
                      Inl e \<Rightarrow> Inl e
                    | Inr matched \<Rightarrow>
                        Inr (\<lparr>hit_info = i, matched_skills = matches,
                              total_skills = length resume_skills,
                              match_count = length matches\<rparr> # matched)))
            else scan_resumes q cs pm rs))"

text \<open>
  \<^verbatim>\<open>xs.sort(key=f, reverse=True)\<close>: the list is reversed, sorted by a stable sort in
  ascending order and reversed again, so that equal keys keep their order.
\<close>

definition sort_reverse :: "('a \<Rightarrow> nat) \<Rightarrow> 'a list \<Rightarrow> 'a list" where
  "sort_reverse f xs = rev (sort_key f (rev xs))"

text \<open>The query as the loop uses it: lower-cased and stripped unless the search is case sensitive.\<close>

definition norm_query :: "bool \<Rightarrow> string \<Rightarrow> string" where
  "norm_query case_sensitive skill_arg =
     (if case_sensitive then skill_arg else strip (lower skill_arg))"

definition search_by_skill ::
  "'i resume list \<Rightarrow> string \<Rightarrow> bool \<Rightarrow> bool \<Rightarrow> py_error + 'i search_hit list" where
  "search_by_skill resumes skill_arg case_sensitive partial_match =
     (if skill_arg = [] \<or> resumes = [] then Inr []
      else
        (let q = norm_query case_sensitive skill_arg
         in case scan_resumes q case_sensitive partial_match resumes of
              Inl e \<Rightarrow> Inl e
            | Inr matched \<Rightarrow> Inr (sort_reverse match_count matched)))"

section \<open>Notions used in the statements and proofs\<close>

text \<open>
  \<open>hit_from q cs pm r h\<close>: the entry \<open>h\<close> of a search result is the one built from
  the record \<open>r\<close>, a record without an error of which some skill matches the query.
\<close>

definition hit_from :: "string \<Rightarrow> bool \<Rightarrow> bool \<Rightarrow> 'i resume \<Rightarrow> 'i search_hit \<Rightarrow> bool" where
  "hit_from q cs pm r h \<longleftrightarrow>
     error r = None \<and> file_info r = Some (hit_info h)
     \<and> matched_skills h = find_matches q cs pm (get_skills r) \<and> matched_skills h \<noteq> []
     \<and> total_skills h = length (get_skills r)
     \<and> match_count h = length (matched_skills h)"

text \<open>The number of skills of a record that match the query.\<close>

definition n_matches :: "string \<Rightarrow> bool \<Rightarrow> bool \<Rightarrow> 'i resume \<Rightarrow> nat" where
  "n_matches q cs pm r = length (find_matches q cs pm (get_skills r))"

text \<open>The position of the first occurrence of \<open>x\<close> in \<open>xs\<close>.\<close>

definition first_index :: "'a list \<Rightarrow> 'a \<Rightarrow> nat" where
  "first_index xs x = length (takeWhile (\<lambda>y. y \<noteq> x) xs)"

text \<open>A list without its repetitions: of every element the first occurrence is kept.\<close>

primrec first_occ :: "'a list \<Rightarrow> 'a list" where
  "first_occ [] = []"
| "first_occ (x # xs) = x # filter (\<lambda>y. y \<noteq> x) (first_occ xs)"

text \<open>Every run of white space replaced by one space.\<close>

function collapse :: "string \<Rightarrow> string" where
  "collapse [] = []"
| "collapse (c # cs) =
     (if is_space c then CHR '' '' # collapse (dropWhile is_space cs) else c # collapse cs)"
  by pat_completeness auto
termination
  by (relation "measure length") (simp_all add: length_dropWhile_le less_Suc_eq_le)

text \<open>A text in which white space is single spaces only.\<close>

definition tidy :: "string \<Rightarrow> bool" where
  "tidy s \<longleftrightarrow> list_all (\<lambda>c. is_space c \<longrightarrow> c = CHR '' '') s
     \<and> successively (\<lambda>a b. \<not> (is_space a \<and> is_space b)) s"

text \<open>
  A text with, for every character, its lower-case form and whether it is a word
  character; and the search for a skill on such a text: \<open>scan_marks s wb z\<close> looks
  for the lower-case literal \<open>s\<close> between two word boundaries, \<open>wb\<close> telling whether
  the character before \<open>z\<close> is a word character.
\<close>

definition marks :: "string \<Rightarrow> (char \<times> bool) list" where
  "marks t = map (\<lambda>c. (lower_char c, is_word c)) t"

definition word_first :: "(char \<times> bool) list \<Rightarrow> bool" where
  "word_first z = (case z of [] \<Rightarrow> False | m # _ \<Rightarrow> snd m)"

fun lit_here :: "string \<Rightarrow> bool \<Rightarrow> (char \<times> bool) list \<Rightarrow> bool" where
  "lit_here [] wb z \<longleftrightarrow> wb \<noteq> word_first z"
| "lit_here (a # s) wb [] \<longleftrightarrow> False"
| "lit_here (a # s) wb (m # z) \<longleftrightarrow> (if a = fst m then lit_here s (snd m) z else False)"

definition word_here :: "string \<Rightarrow> bool \<Rightarrow> (char \<times> bool) list \<Rightarrow> bool" where
  "word_here s wb z \<longleftrightarrow> (if wb \<noteq> word_first z then lit_here s wb z else False)"

fun scan_marks :: "string \<Rightarrow> bool \<Rightarrow> (char \<times> bool) list \<Rightarrow> bool" where
  "scan_marks s wb [] \<longleftrightarrow> word_here s wb []"
| "scan_marks s wb (m # z) \<longleftrightarrow> (if word_here s wb (m # z) then True else scan_marks s (snd m) z)"

text \<open>The vocabulary in the order in which the skills are tried: the multi-word skills first.\<close>

definition skill_order :: "string list" where
  "skill_order = filter (\<lambda>s. CHR '' '' \<in> set s) SKILLS @ filter (\<lambda>s. CHR '' '' \<notin> set s) SKILLS"

text \<open>
  The same search written with one equation per case, the form in which the simplifier
  runs it on a concrete text.
\<close>

fun lit_step :: "bool \<Rightarrow> string \<Rightarrow> bool \<Rightarrow> (char \<times> bool) list \<Rightarrow> bool"
  and lit_fast :: "string \<Rightarrow> bool \<Rightarrow> (char \<times> bool) list \<Rightarrow> bool" where
  "lit_step False s w z \<longleftrightarrow> False"
| "lit_step True s w z \<longleftrightarrow> lit_fast s w z"
| "lit_fast [] wb [] \<longleftrightarrow> wb"
| "lit_fast [] wb ((c, w) # z) \<longleftrightarrow> wb \<noteq> w"
| "lit_fast (a # s) wb [] \<longleftrightarrow> False"
| "lit_fast (a # s) wb ((c, w) # z) \<longleftrightarrow> lit_step (a = c) s w z"

fun scan_step :: "bool \<Rightarrow> string \<Rightarrow> bool \<Rightarrow> (char \<times> bool) list \<Rightarrow> bool"
  and scan_fast :: "string \<Rightarrow> bool \<Rightarrow> (char \<times> bool) list \<Rightarrow> bool" where
  "scan_step True s w z \<longleftrightarrow> True"
| "scan_step False s w z \<longleftrightarrow> scan_fast s w z"
| "scan_fast s wb [] \<longleftrightarrow> (if wb then lit_fast s wb [] else False)"
| "scan_fast s wb ((c, w) # z) \<longleftrightarrow> scan_step (lit_step (wb \<noteq> w) s wb ((c, w) # z)) s w z"

subsection \<open>Example collections\<close>

definition err_rec :: "nat resume" where
  "err_rec = no_keys\<lparr>error := Some ''PDF error: no such page'', skills := Some [''python''],
                      file_info := Some 1\<rparr>"

definition ok_rec :: "nat resume" where
  "ok_rec = no_keys\<lparr>skills := Some [''python'', ''sql''], file_info := Some 2\<rparr>"

definition ok_hit :: "nat search_hit" where
  "ok_hit = \<lparr>hit_info = 2, matched_skills = [\<lparr>skill = ''python'', match_type = ''exact''\<rparr>],
             total_skills = 2, match_count = 1\<rparr>"

definition rec_a :: "nat resume" where
  "rec_a = no_keys\<lparr>skills := Some [''java''], file_info := Some 1\<rparr>"

definition rec_b :: "nat resume" where
  "rec_b = no_keys\<lparr>skills := Some [''java'', ''javascript'', ''sql'', ''ja''], file_info := Some 2\<rparr>"

definition rec_c :: "nat resume" where
  "rec_c = no_keys\<lparr>skills := Some [''javascript'', ''java''], file_info := Some 3\<rparr>"

definition hits_bca :: "nat search_hit list" where
  "hits_bca =
     [\<lparr>hit_info = 2,
       matched_skills = [\<lparr>skill = ''java'', match_type = ''exact''\<rparr>,
                         \<lparr>skill = ''javascript'', match_type = ''partial''\<rparr>,
                         \<lparr>skill = ''ja'', match_type = ''exact''\<rparr>],
       total_skills = 4, match_count = 3\<rparr>,
      \<lparr>hit_info = 3,
       matched_skills = [\<lparr>skill = ''javascript'', match_type = ''partial''\<rparr>,
                         \<lparr>skill = ''java'', match_type = ''exact''\<rparr>],
       total_skills = 2, match_count = 2\<rparr>,
      \<lparr>hit_info = 1,
       matched_skills = [\<lparr>skill = ''java'', match_type = ''exact''\<rparr>],
       total_skills = 1, match_count = 1\<rparr>]"

definition py_rec :: "nat resume" where
  "py_rec = no_keys\<lparr>skills := Some [''Python'', ''go''], file_info := Some 7\<rparr>"

definition py_hit :: "nat search_hit" where
  "py_hit = \<lparr>hit_info = 7, matched_skills = [\<lparr>skill = ''Python'', match_type = ''partial''\<rparr>],
             total_skills = 2, match_count = 1\<rparr>"

definition two_lines :: string where
  "two_lines = ''Skills: Python\<newline>  Education and internship at Acme University \<newline>Worked at Acme''"

definition both_line :: string where
  "both_line = ''Education and internship at Acme University''"

text \<open>The raw text of the scenario of the specification.\<close>

definition scenario_text :: string where
  "scenario_text = ''Contact: jane.doe@example.com, +91 9876543210. Skills: Python, SQL. Education: B.Tech CS. Experience: Intern at Acme.''"

section \<open>Read failures\<close>

lemma startswith_any_READ_ERRORS:
  "startswith_any raw READ_ERRORS \<longleftrightarrow>
     prefix ''PDF error:'' raw \<or> prefix ''DOCX error:'' raw \<or>
     prefix ''File not found!'' raw \<or> prefix ''Unsupported'' raw"
  by (simp add: startswith_any_def READ_ERRORS_def)

text \<open>
  C8. On a raw text that begins with one of the four read-failure prefixes,
  \<open>parse_resume\<close> returns the record whose \<open>error\<close> is that text, whose
  \<open>parsed_data\<close> is the empty dictionary and which has no other key. None of the five
  steps takes part in it: the body returns the same record whatever functions stand
  in for cleaning, contact, skill and section extraction.
\<close>

theorem parse_resume_read_error:
  assumes "prefix ''PDF error:'' raw \<or> prefix ''DOCX error:'' raw \<or>
           prefix ''File not found!'' raw \<or> prefix ''Unsupported'' raw"
  shows "(parse_resume raw :: 'i resume) =
           \<lparr>error = Some raw, parsed_data = Some (), contact = None, skills = None,
            education = None, experience = None, summary = None, file_info = None\<rparr>
         \<and> (\<forall>clean clean_lines basic_step skills_step sections_step.
               (parse_with clean clean_lines basic_step skills_step sections_step raw :: 'i resume)
                 = parse_resume raw)"
  using assms
  by (simp add: parse_resume_def parse_with_def startswith_any_READ_ERRORS no_keys_def)

theorem parse_resume_read_error_witness:
  "prefix ''PDF error:'' ''PDF error: cannot open broken document''
   \<and> (parse_resume ''PDF error: cannot open broken document'' :: unit resume) =
       \<lparr>error = Some ''PDF error: cannot open broken document'', parsed_data = Some (),
        contact = None, skills = None, education = None, experience = None, summary = None,
        file_info = None\<rparr>"
proof -
  have h: "prefix ''PDF error:'' ''PDF error: cannot open broken document''" by simp
  then show ?thesis
    using parse_resume_read_error [of "''PDF error: cannot open broken document''"] by blast
qed

section \<open>Skill search: ordering, matching and failed records\<close>

lemma str_contains_iff_sublist: "str_contains sub s \<longleftrightarrow> sublist sub s"
  by (induction s) (simp_all add: sublist_Cons_right)

lemma scan_resumes_filter_error:
  "scan_resumes q cs pm (filter (\<lambda>r. error r = None) rs) = scan_resumes q cs pm rs"
  by (induction rs) (auto simp: Let_def split: option.splits)

lemma scan_resumes_hits:
  "scan_resumes q cs pm rs = Inr matched \<Longrightarrow>
   list_all2 (hit_from q cs pm)
     (filter (\<lambda>r. error r = None \<and> 0 < n_matches q cs pm r) rs) matched"
proof (induction rs arbitrary: matched)
  case Nil
  then show ?case by simp
next
  case (Cons r rs)
  then show ?case
    by (auto simp: Let_def hit_from_def n_matches_def split: if_splits option.splits sum.splits)
qed

lemma sort_reverse_sorted: "sorted (rev (map f (sort_reverse f xs)))"
  by (simp add: sort_reverse_def rev_map [symmetric])

lemma sort_reverse_stable:
  "filter (\<lambda>x. f x = k) (sort_reverse f xs) = filter (\<lambda>x. f x = k) xs"
  by (simp add: sort_reverse_def rev_filter [symmetric] sort_key_stable)

lemma set_sort_reverse: "set (sort_reverse f xs) = set xs"
  by (simp add: sort_reverse_def)

lemma list_all2_filter_key:
  "list_all2 R xs ys \<Longrightarrow> (\<And>x y. R x y \<Longrightarrow> P x = Q y) \<Longrightarrow>
   list_all2 R (filter P xs) (filter Q ys)"
  by (induction rule: list_all2_induct) auto

lemma hit_from_count: "hit_from q cs pm r h \<Longrightarrow> match_count h = n_matches q cs pm r"
  by (simp add: hit_from_def n_matches_def)

lemma list_all2_pick_left:
  "list_all2 R xs ys \<Longrightarrow> y \<in> set ys \<Longrightarrow> \<exists>x\<in>set xs. R x y"
  by (induction rule: list_all2_induct) auto

lemma search_by_skill_Inr:
  assumes "search_by_skill rs sk cs pm = Inr hits" "sk \<noteq> []"
  obtains matched where "scan_resumes (norm_query cs sk) cs pm rs = Inr matched"
    and "hits = sort_reverse match_count matched"
proof (cases "rs = []")
  case True
  with assms have "hits = []" by (simp add: search_by_skill_def)
  with True that [of "[]"] show thesis by (simp add: sort_reverse_def)
next
  case False
  with assms that show thesis
    by (auto simp: search_by_skill_def Let_def split: sum.splits)
qed

text \<open>
  C7. A search gives the same result on a collection and on the collection without its
  records that carry an error, whatever else those records hold; every entry of a
  result is built from a record of the collection that carries no error; and the empty
  collection and the empty query give the empty result, not an error.
\<close>

theorem search_skips_error_records:
  "search_by_skill rs sk cs pm = search_by_skill (filter (\<lambda>r. error r = None) rs) sk cs pm
   \<and> search_by_skill ([] :: 'i resume list) sk cs pm = Inr []
   \<and> search_by_skill rs [] cs pm = Inr []
   \<and> (\<forall>hits h. search_by_skill rs sk cs pm = Inr hits \<and> h \<in> set hits \<longrightarrow>
         (\<exists>r\<in>set rs. error r = None \<and> hit_from (norm_query cs sk) cs pm r h))"
proof (intro conjI allI impI)
  let ?ok = "filter (\<lambda>r. error r = None) rs"
  show "search_by_skill rs sk cs pm = search_by_skill ?ok sk cs pm"
  proof (cases "?ok = []")
    case True
    then have "scan_resumes (norm_query cs sk) cs pm rs = Inr []"
      using scan_resumes_filter_error [of "norm_query cs sk" cs pm rs] by simp
    with True show ?thesis
      by (simp add: search_by_skill_def sort_reverse_def)
  next
    case False
    then have "rs \<noteq> []" by auto
    with False show ?thesis
      by (simp add: search_by_skill_def scan_resumes_filter_error)
  qed
next
  show "search_by_skill ([] :: 'i resume list) sk cs pm = Inr []"
    by (simp add: search_by_skill_def)
next
  show "search_by_skill rs [] cs pm = Inr []"
    by (simp add: search_by_skill_def)
next
  fix hits h
  assume a: "search_by_skill rs sk cs pm = Inr hits \<and> h \<in> set hits"
  then have "sk \<noteq> []" by (auto simp: search_by_skill_def)
  with a obtain matched where m: "scan_resumes (norm_query cs sk) cs pm rs = Inr matched"
    and h: "hits = sort_reverse match_count matched"
    by (blast elim: search_by_skill_Inr)
  from a h have "h \<in> set matched" by (simp add: set_sort_reverse)
  with scan_resumes_hits [OF m]
  obtain r where "r \<in> set (filter (\<lambda>r. error r = None \<and> 0 < n_matches (norm_query cs sk) cs pm r) rs)"
    and "hit_from (norm_query cs sk) cs pm r h"
    by (blast dest: list_all2_pick_left)
  then show "\<exists>r\<in>set rs. error r = None \<and> hit_from (norm_query cs sk) cs pm r h"
    by auto
qed

lemma search_err_ok: "search_by_skill [err_rec, ok_rec] ''python'' False True = Inr [ok_hit]"
  by code_simp

theorem search_skips_error_records_witness:
  "search_by_skill [err_rec, ok_rec] ''python'' False True = Inr [ok_hit]
   \<and> ok_hit \<in> set [ok_hit]
   \<and> (\<exists>r\<in>set [err_rec, ok_rec].
         error r = None \<and> hit_from (norm_query False ''python'') False True r ok_hit)
   \<and> search_by_skill [err_rec, ok_rec] ''python'' False True
       = search_by_skill [ok_rec] ''python'' False True"
proof -
  have e: "filter (\<lambda>r. error r = None) [err_rec, ok_rec] = [ok_rec]"
    by (simp add: err_rec_def ok_rec_def no_keys_def)
  have m: "ok_hit \<in> set [ok_hit]" by simp
  show ?thesis
    using search_skips_error_records [of "[err_rec, ok_rec]" "''python''" False True]
      search_err_ok m e
    by (metis (no_types, lifting))
qed

text \<open>
  C5. The result of a search is in descending order of match count. For every count,
  the entries with that count are built, one for one and in the same order, from the
  records of the collection with that many matches: equal counts keep the order of the
  collection. Three records with 1, 3 and 2 matches come out as the second, the third,
  the first.
\<close>

theorem search_result_order:
  assumes "search_by_skill rs sk cs pm = Inr hits"
  shows "sorted (rev (map match_count hits))
    \<and> (\<forall>k. sk \<noteq> [] \<and> 0 < k \<longrightarrow>
          list_all2 (hit_from (norm_query cs sk) cs pm)
            (filter (\<lambda>r. error r = None \<and> n_matches (norm_query cs sk) cs pm r = k) rs)
            (filter (\<lambda>h. match_count h = k) hits))
    \<and> (\<forall>a b c. sk \<noteq> [] \<and> rs = [a, b, c]
          \<and> error a = None \<and> error b = None \<and> error c = None
          \<and> n_matches (norm_query cs sk) cs pm a = 1
          \<and> n_matches (norm_query cs sk) cs pm b = 3
          \<and> n_matches (norm_query cs sk) cs pm c = 2 \<longrightarrow>
          list_all2 (hit_from (norm_query cs sk) cs pm) [b, c, a] hits)"
proof (intro conjI allI impI)
  show "sorted (rev (map match_count hits))"
  proof (cases "sk = []")
    case True
    with assms show ?thesis by (simp add: search_by_skill_def)
  next
    case False
    with assms show ?thesis
      by (auto elim!: search_by_skill_Inr simp: sort_reverse_sorted)
  qed
next
  fix k :: nat
  let ?q = "norm_query cs sk"
  assume k: "sk \<noteq> [] \<and> 0 < k"
  with assms obtain matched where m: "scan_resumes ?q cs pm rs = Inr matched"
    and h: "hits = sort_reverse match_count matched"
    by (blast elim: search_by_skill_Inr)
  have "list_all2 (hit_from ?q cs pm)
          (filter (\<lambda>r. n_matches ?q cs pm r = k)
             (filter (\<lambda>r. error r = None \<and> 0 < n_matches ?q cs pm r) rs))
          (filter (\<lambda>h. match_count h = k) matched)"
    using scan_resumes_hits [OF m] by (rule list_all2_filter_key) (simp add: hit_from_count)
  moreover have "filter (\<lambda>r. n_matches ?q cs pm r = k)
             (filter (\<lambda>r. error r = None \<and> 0 < n_matches ?q cs pm r) rs)
           = filter (\<lambda>r. error r = None \<and> n_matches ?q cs pm r = k) rs"
    using k by (auto intro: filter_cong)
  ultimately show "list_all2 (hit_from ?q cs pm)
            (filter (\<lambda>r. error r = None \<and> n_matches ?q cs pm r = k) rs)
            (filter (\<lambda>h. match_count h = k) hits)"
    by (simp add: h sort_reverse_stable)
next
  fix a b c
  let ?q = "norm_query cs sk"
  assume p: "sk \<noteq> [] \<and> rs = [a, b, c]
          \<and> error a = None \<and> error b = None \<and> error c = None
          \<and> n_matches ?q cs pm a = 1 \<and> n_matches ?q cs pm b = 3 \<and> n_matches ?q cs pm c = 2"
  with assms obtain matched where m: "scan_resumes ?q cs pm rs = Inr matched"
    and h: "hits = sort_reverse match_count matched"
    by (blast elim: search_by_skill_Inr)
  from p have "filter (\<lambda>r. error r = None \<and> 0 < n_matches ?q cs pm r) rs = [a, b, c]"
    by simp
  with scan_resumes_hits [OF m] have l: "list_all2 (hit_from ?q cs pm) [a, b, c] matched"
    by simp
  then obtain x y z where xyz: "matched = [x, y, z]" "hit_from ?q cs pm a x"
    "hit_from ?q cs pm b y" "hit_from ?q cs pm c z"
    by (auto simp: list_all2_Cons1)
  with p have "match_count x = 1" "match_count y = 3" "match_count z = 2"
    by (simp_all add: hit_from_count)
  then have "sort_reverse match_count [x, y, z] = [y, z, x]"
    by (simp add: sort_reverse_def)
  with xyz h show "list_all2 (hit_from ?q cs pm) [b, c, a] hits"
    by simp
qed

lemma search_abc: "search_by_skill [rec_a, rec_b, rec_c] ''java'' False True = Inr hits_bca"
  by code_simp

lemma n_matches_abc:
  "n_matches (norm_query False ''java'') False True rec_a = 1"
  "n_matches (norm_query False ''java'') False True rec_b = 3"
  "n_matches (norm_query False ''java'') False True rec_c = 2"
  by code_simp+

theorem search_result_order_witness:
  "search_by_skill [rec_a, rec_b, rec_c] ''java'' False True = Inr hits_bca
   \<and> sorted (rev (map match_count hits_bca))
   \<and> list_all2 (hit_from (norm_query False ''java'') False True) [rec_b, rec_c, rec_a] hits_bca"
proof -
  have e: "error rec_a = None \<and> error rec_b = None \<and> error rec_c = None"
    by (simp add: rec_a_def rec_b_def rec_c_def no_keys_def)
  have s: "''java'' \<noteq> []" by simp
  show ?thesis
    using search_result_order [OF search_abc] search_abc e s n_matches_abc
    by blast
qed

lemma set_find_matches:
  "m \<in> set (find_matches q cs pm ss) \<longleftrightarrow> (\<exists>s\<in>set ss. match_skill q cs pm s = Some m)"
  by (force simp: find_matches_def List.map_filter_def image_iff)

text \<open>
  C6. The matches of an entry are those of \<open>find_matches\<close> on the normalised query
  and the skills of its record. With partial matching a skill matches exactly when the
  query occurs in the normalised skill or the normalised skill occurs in the query, and
  the match is \<open>partial\<close> when the query is strictly shorter than the skill and
  \<open>exact\<close> otherwise; without it a skill matches exactly when it equals the query, and
  the match is \<open>exact\<close>. The query \<open>py\<close> on the skill \<open>python\<close> is a partial match,
  the query \<open>python\<close> an exact one.
\<close>

theorem skill_match_rule:
  "(\<forall>hits h. search_by_skill rs sk cs pm = Inr hits \<and> h \<in> set hits \<longrightarrow>
      (\<exists>r\<in>set rs. error r = None
          \<and> matched_skills h = find_matches (norm_query cs sk) cs pm (get_skills r)))
   \<and> (\<lparr>skill = s, match_type = k\<rparr> \<in> set (find_matches q cs True ss) \<longleftrightarrow>
        s \<in> set ss
        \<and> (sublist q (if cs then s else lower s) \<or> sublist (if cs then s else lower s) q)
        \<and> k = (if length q < length (if cs then s else lower s) then ''partial'' else ''exact''))
   \<and> (\<lparr>skill = s, match_type = k\<rparr> \<in> set (find_matches q cs False ss) \<longleftrightarrow>
        s \<in> set ss \<and> q = (if cs then s else lower s) \<and> k = ''exact'')
   \<and> search_by_skill [no_keys\<lparr>skills := Some [''python''], file_info := Some i\<rparr>]
        ''py'' False True
      = Inr [\<lparr>hit_info = i,
               matched_skills = [\<lparr>skill = ''python'', match_type = ''partial''\<rparr>],
               total_skills = 1, match_count = 1\<rparr>]
   \<and> search_by_skill [no_keys\<lparr>skills := Some [''python''], file_info := Some i\<rparr>]
        ''python'' False True
      = Inr [\<lparr>hit_info = i,
               matched_skills = [\<lparr>skill = ''python'', match_type = ''exact''\<rparr>],
               total_skills = 1, match_count = 1\<rparr>]"
proof (intro conjI allI impI)
  fix hits h
  assume a: "search_by_skill rs sk cs pm = Inr hits \<and> h \<in> set hits"
  then have "sk \<noteq> []" by (auto simp: search_by_skill_def)
  with a obtain matched where m: "scan_resumes (norm_query cs sk) cs pm rs = Inr matched"
    and h: "hits = sort_reverse match_count matched"
    by (blast elim: search_by_skill_Inr)
  from a h have "h \<in> set matched" by (simp add: set_sort_reverse)
  with scan_resumes_hits [OF m]
  obtain r where "r \<in> set (filter (\<lambda>r. error r = None \<and> 0 < n_matches (norm_query cs sk) cs pm r) rs)"
    and "hit_from (norm_query cs sk) cs pm r h"
    by (blast dest: list_all2_pick_left)
  then show "\<exists>r\<in>set rs. error r = None
          \<and> matched_skills h = find_matches (norm_query cs sk) cs pm (get_skills r)"
    by (auto simp: hit_from_def)
next
  show "\<lparr>skill = s, match_type = k\<rparr> \<in> set (find_matches q cs True ss) \<longleftrightarrow>
        s \<in> set ss
        \<and> (sublist q (if cs then s else lower s) \<or> sublist (if cs then s else lower s) q)
        \<and> k = (if length q < length (if cs then s else lower s) then ''partial'' else ''exact'')"
    by (auto simp: set_find_matches match_skill_def str_contains_iff_sublist Let_def
        split: if_splits)
next
  show "\<lparr>skill = s, match_type = k\<rparr> \<in> set (find_matches q cs False ss) \<longleftrightarrow>
        s \<in> set ss \<and> q = (if cs then s else lower s) \<and> k = ''exact''"
    by (auto simp: set_find_matches match_skill_def Let_def split: if_splits)
next
  show "search_by_skill [no_keys\<lparr>skills := Some [''python''], file_info := Some i\<rparr>]
        ''py'' False True
      = Inr [\<lparr>hit_info = i,
               matched_skills = [\<lparr>skill = ''python'', match_type = ''partial''\<rparr>],
               total_skills = 1, match_count = 1\<rparr>]"
    by (simp add: search_by_skill_def no_keys_def norm_query_def lower_def strip_def
        get_skills_def find_matches_def match_skill_def List.map_filter_def sort_reverse_def
        Let_def lower_char_def is_upper_az_def in_range_def cp_def is_space_def)
next
  show "search_by_skill [no_keys\<lparr>skills := Some [''python''], file_info := Some i\<rparr>]
        ''python'' False True
      = Inr [\<lparr>hit_info = i,
               matched_skills = [\<lparr>skill = ''python'', match_type = ''exact''\<rparr>],
               total_skills = 1, match_count = 1\<rparr>]"
    by (simp add: search_by_skill_def no_keys_def norm_query_def lower_def strip_def
        get_skills_def find_matches_def match_skill_def List.map_filter_def sort_reverse_def
        Let_def lower_char_def is_upper_az_def in_range_def cp_def is_space_def)
qed

lemma search_py: "search_by_skill [py_rec] '' PY '' False True = Inr [py_hit]"
  by code_simp

theorem skill_match_rule_witness:
  "search_by_skill [py_rec] '' PY '' False True = Inr [py_hit] \<and> py_hit \<in> set [py_hit]
   \<and> (\<exists>r\<in>set [py_rec]. error r = None
         \<and> matched_skills py_hit = find_matches (norm_query False '' PY '') False True (get_skills r))"
proof -
  have m: "py_hit \<in> set [py_hit]" by simp
  note r = skill_match_rule [of "[py_rec]" "'' PY ''" False True, THEN conjunct1, rule_format,
      of "[py_hit]" py_hit]
  from r search_py m show ?thesis by simp
qed

section \<open>Contact lists\<close>

lemma fold_fromkeys_step:
  "fold (\<lambda>x ks. if x \<in> set ks then ks else ks @ [x]) xs acc
     = acc @ filter (\<lambda>x. x \<notin> set acc) (first_occ xs)"
proof (induction xs arbitrary: acc)
  case Nil
  then show ?case by simp
next
  case (Cons x xs)
  show ?case
  proof (cases "x \<in> set acc")
    case True
    then have "filter (\<lambda>y. y \<notin> set acc) (filter (\<lambda>y. y \<noteq> x) (first_occ xs))
                 = filter (\<lambda>y. y \<notin> set acc) (first_occ xs)"
      by (auto intro: filter_cong)
    with True Cons show ?thesis by simp
  next
    case False
    have "filter (\<lambda>y. y \<notin> set (acc @ [x])) (first_occ xs)
            = filter (\<lambda>y. y \<notin> set acc) (filter (\<lambda>y. y \<noteq> x) (first_occ xs))"
      by (auto intro: filter_cong)
    with False Cons [of "acc @ [x]"] show ?thesis by simp
  qed
qed

lemma fromkeys_first_occ: "fromkeys xs = first_occ xs"
  by (simp add: fromkeys_def fold_fromkeys_step)

lemma set_first_occ: "set (first_occ xs) = set xs"
  by (induction xs) auto

lemma distinct_first_occ: "distinct (first_occ xs)"
  by (induction xs) auto

lemma first_index_Cons:
  "first_index (x # xs) y = (if y = x then 0 else Suc (first_index xs y))"
  by (simp add: first_index_def)

lemma first_occ_order:
  "sorted_wrt (\<lambda>a b. first_index xs a < first_index xs b) (first_occ xs)"
proof (induction xs)
  case Nil
  then show ?case by simp
next
  case (Cons x xs)
  have "sorted_wrt (\<lambda>a b. first_index xs a < first_index xs b)
          (filter (\<lambda>y. y \<noteq> x) (first_occ xs))"
    using Cons by (rule sorted_wrt_filter)
  then have "sorted_wrt (\<lambda>a b. first_index (x # xs) a < first_index (x # xs) b)
          (filter (\<lambda>y. y \<noteq> x) (first_occ xs))"
    by (rule sorted_wrt_mono_rel [rotated]) (simp add: first_index_Cons)
  then show ?case by (simp add: first_index_Cons)
qed

lemma hd_first_occ: "xs \<noteq> [] \<Longrightarrow> hd (first_occ xs) = hd xs"
  by (cases xs) simp_all

lemma first_occ_Nil_iff: "first_occ xs = [] \<longleftrightarrow> xs = []"
  by (cases xs) simp_all

text \<open>
  C3. For every text, the list of all emails that \<open>extract_basic_info\<close> returns has
  no duplicates, holds exactly the matches of the email pattern, and lists them in the
  order of their first occurrence among the matches, which \<open>re_findall\<close> gives in
  document order; the primary email is the first element of that list, or
  \<open>Not found\<close> when the list is empty. The same holds of the phones.
\<close>

theorem basic_info_lists:
  "distinct (info_emails (extract_basic_info text))
   \<and> set (info_emails (extract_basic_info text)) = set (re_findall EMAIL_REGEX text)
   \<and> sorted_wrt (\<lambda>a b. first_index (re_findall EMAIL_REGEX text) a
                         < first_index (re_findall EMAIL_REGEX text) b)
        (info_emails (extract_basic_info text))
   \<and> info_email (extract_basic_info text)
       = (case info_emails (extract_basic_info text) of [] \<Rightarrow> ''Not found'' | e # _ \<Rightarrow> e)
   \<and> distinct (info_phones (extract_basic_info text))
   \<and> set (info_phones (extract_basic_info text)) = set (re_findall PHONE_REGEX text)
   \<and> sorted_wrt (\<lambda>a b. first_index (re_findall PHONE_REGEX text) a
                         < first_index (re_findall PHONE_REGEX text) b)
        (info_phones (extract_basic_info text))
   \<and> info_phone (extract_basic_info text)
       = (case info_phones (extract_basic_info text) of [] \<Rightarrow> ''Not found'' | p # _ \<Rightarrow> p)"
proof -
  have prim: "(case xs of [] \<Rightarrow> ''Not found'' | e # _ \<Rightarrow> e)
        = (case first_occ xs of [] \<Rightarrow> ''Not found'' | e # _ \<Rightarrow> e)" for xs :: "string list"
    by (cases xs) simp_all
  show ?thesis
    by (simp add: extract_basic_info_def Let_def fromkeys_first_occ set_first_occ
        distinct_first_occ first_occ_order prim [symmetric])
qed

section \<open>Section classification\<close>

lemma fold_dedup_step:
  "fold (\<lambda>x (seen, out). if x \<in> seen then (seen, out) else (insert x seen, out @ [x])) xs (seen, out)
     = (seen \<union> set xs, out @ filter (\<lambda>x. x \<notin> seen) (first_occ xs))"
proof (induction xs arbitrary: seen out)
  case Nil
  then show ?case by simp
next
  case (Cons x xs)
  show ?case
  proof (cases "x \<in> seen")
    case True
    then have "filter (\<lambda>y. y \<notin> seen) (filter (\<lambda>y. y \<noteq> x) (first_occ xs))
                 = filter (\<lambda>y. y \<notin> seen) (first_occ xs)"
      by (auto intro: filter_cong)
    with True Cons show ?thesis by (simp add: insert_absorb)
  next
    case False
    have "filter (\<lambda>y. y \<notin> insert x seen) (first_occ xs)
            = filter (\<lambda>y. y \<notin> seen) (filter (\<lambda>y. y \<noteq> x) (first_occ xs))"
      by (auto intro: filter_cong)
    with False Cons [of "insert x seen" "out @ [x]"] show ?thesis by simp
  qed
qed

lemma dedup_first_occ: "dedup xs = first_occ xs"
  by (simp add: dedup_def fold_dedup_step)

lemma any_kw_iff: "any_kw kws s \<longleftrightarrow> (\<exists>kw\<in>set kws. sublist kw s)"
  by (simp add: any_kw_def list_ex_iff str_contains_iff_sublist)

lemma fold_classify_line:
  "fold classify_line ls (e, x)
     = (e @ filter (\<lambda>l. \<not> length (lower l) < 3 \<and> any_kw EDU_KEYWORDS (lower l)) ls,
        x @ filter (\<lambda>l. \<not> length (lower l) < 3 \<and> \<not> any_kw EDU_KEYWORDS (lower l)
                        \<and> any_kw EXP_KEYWORDS (lower l)) ls)"
  by (induction ls arbitrary: e x) (simp_all add: classify_line_def Let_def)

lemma set_extract_sections:
  "set (fst (extract_sections text))
     = {l \<in> set (section_lines text). \<not> length (lower l) < 3 \<and> any_kw EDU_KEYWORDS (lower l)}"
  "set (snd (extract_sections text))
     = {l \<in> set (section_lines text). \<not> length (lower l) < 3 \<and> \<not> any_kw EDU_KEYWORDS (lower l)
          \<and> any_kw EXP_KEYWORDS (lower l)}"
  by (simp_all add: extract_sections_def Let_def fold_classify_line dedup_first_occ set_first_occ)

lemma exp_keyword_length: "kw \<in> set EXP_KEYWORDS \<Longrightarrow> 3 \<le> length kw"
  by (auto simp: EXP_KEYWORDS_def)

text \<open>
  C2. For every text, no line is in both lists that \<open>extract_sections\<close> returns, and
  a line of the text whose lower-cased form contains an education keyword and an
  experience keyword is in the education list and not in the experience list.
\<close>

theorem sections_disjoint:
  "set (fst (extract_sections text)) \<inter> set (snd (extract_sections text)) = {}
   \<and> (\<forall>line\<in>set (section_lines text).
         (\<exists>kw\<in>set EDU_KEYWORDS. sublist kw (lower line))
         \<and> (\<exists>kw\<in>set EXP_KEYWORDS. sublist kw (lower line))
         \<longrightarrow> line \<in> set (fst (extract_sections text))
             \<and> line \<notin> set (snd (extract_sections text)))"
proof (intro conjI ballI impI)
  show "set (fst (extract_sections text)) \<inter> set (snd (extract_sections text)) = {}"
    by (auto simp: set_extract_sections)
next
  fix line
  assume l: "line \<in> set (section_lines text)"
    and k: "(\<exists>kw\<in>set EDU_KEYWORDS. sublist kw (lower line))
         \<and> (\<exists>kw\<in>set EXP_KEYWORDS. sublist kw (lower line))"
  then obtain kw where "kw \<in> set EXP_KEYWORDS" "sublist kw (lower line)" by blast
  then have "3 \<le> length (lower line)"
    using exp_keyword_length [of kw] sublist_length_le [of kw "lower line"] by simp
  with l k show "line \<in> set (fst (extract_sections text))"
    by (simp add: set_extract_sections any_kw_iff)
  from k show "line \<notin> set (snd (extract_sections text))"
    by (simp add: set_extract_sections any_kw_iff)
qed

lemma both_line_facts:
  "both_line \<in> set (section_lines two_lines)"
  "\<exists>kw\<in>set EDU_KEYWORDS. sublist kw (lower both_line)"
  "\<exists>kw\<in>set EXP_KEYWORDS. sublist kw (lower both_line)"
  by code_simp+

lemma two_lines_sections: "extract_sections two_lines = ([both_line], [''Worked at Acme''])"
  by code_simp

theorem sections_disjoint_witness:
  "both_line \<in> set (section_lines two_lines)
   \<and> (\<exists>kw\<in>set EDU_KEYWORDS. sublist kw (lower both_line))
   \<and> (\<exists>kw\<in>set EXP_KEYWORDS. sublist kw (lower both_line))
   \<and> both_line \<in> set (fst (extract_sections two_lines))
   \<and> both_line \<notin> set (snd (extract_sections two_lines))"
  using sections_disjoint [of two_lines, THEN conjunct2, rule_format, of both_line]
    both_line_facts
  by simp

section \<open>The flat normaliser\<close>

lemma snd_advance: "snd (advance n st) = drop n (snd st)"
  by (induction n st rule: advance.induct) simp_all

lemma drop_takeWhile_length: "drop (length (takeWhile P xs)) xs = dropWhile P xs"
  by (induction xs) simp_all

lemma rep_counts_plus:
  "rep_counts P (Suc 0) None s =
     (if takeWhile P s = [] then [] else rev [Suc 0 ..< Suc (length (takeWhile P s))])"
  by (simp add: rep_counts_def Let_def)

lemma match_len_WS_PLUS:
  "match_len WS_PLUS (p, s) =
     (if takeWhile is_space s = [] then None else Some (length (takeWhile is_space s)))"
proof (cases "takeWhile is_space s = []")
  case True
  then show ?thesis by (simp add: match_len_def WS_PLUS_def rep_counts_plus)
next
  case False
  then have k: "Suc 0 \<le> length (takeWhile is_space s)"
    by (cases "takeWhile is_space s") simp_all
  then have "rev [Suc 0 ..< Suc (length (takeWhile is_space s))]
      = length (takeWhile is_space s) # rev [Suc 0 ..< length (takeWhile is_space s)]"
    by (simp add: upt_Suc_append)
  moreover have "length s - (length s - length (takeWhile is_space s)) = length (takeWhile is_space s)"
    using length_takeWhile_le [of is_space s] by simp
  ultimately show ?thesis
    using False by (simp add: match_len_def WS_PLUS_def rep_counts_plus snd_advance)
qed

lemma sub_from_WS_PLUS: "sub_from WS_PLUS '' '' (p, s) = collapse s"
proof (induction s arbitrary: p rule: collapse.induct)
  case 1
  show ?case by (subst sub_from.simps) (simp add: match_len_WS_PLUS)
next
  case (2 c cs)
  show ?case
  proof (cases "is_space c")
    case True
    let ?k = "length (takeWhile is_space (c # cs))"
    have "snd (advance ?k (p, c # cs)) = dropWhile is_space cs"
      using True by (simp add: snd_advance drop_takeWhile_length del: takeWhile.simps)
    then have "advance ?k (p, c # cs) = (fst (advance ?k (p, c # cs)), dropWhile is_space cs)"
      by (metis prod.collapse)
    then have "sub_from WS_PLUS '' '' (advance ?k (p, c # cs)) = collapse (dropWhile is_space cs)"
      using 2(1) [OF True] by metis
    with True show ?thesis
      by (subst sub_from.simps) (simp add: match_len_WS_PLUS)
  next
    case False
    with 2(2) [OF False] show ?thesis
      by (subst sub_from.simps) (simp add: match_len_WS_PLUS)
  qed
qed

lemma clean_text_collapse: "clean_text t = strip (collapse t)"
  by (simp add: clean_text_def re_sub_def sub_from_WS_PLUS)

lemma collapse_hd: "collapse s \<noteq> [] \<Longrightarrow> is_space (hd (collapse s)) \<longleftrightarrow> is_space (hd s)"
  by (cases s) (auto simp: is_space_def in_range_def cp_def)

lemma collapse_Nil_iff: "collapse s = [] \<longleftrightarrow> s = []"
  by (cases s) simp_all

lemma dropWhile_hd: "dropWhile P xs \<noteq> [] \<Longrightarrow> \<not> P (hd (dropWhile P xs))"
  by (simp add: hd_dropWhile)

lemma tidy_collapse: "tidy (collapse s)"
proof (induction s rule: collapse.induct)
  case 1
  show ?case by (simp add: tidy_def)
next
  case (2 c cs)
  show ?case
  proof (cases "is_space c")
    case True
    let ?r = "collapse (dropWhile is_space cs)"
    have "?r = [] \<or> \<not> is_space (hd ?r)"
      using collapse_hd [of "dropWhile is_space cs"] dropWhile_hd [of is_space cs]
      by (auto simp: collapse_Nil_iff)
    with True 2(1) [OF True] show ?thesis
      by (auto simp: tidy_def successively_Cons)
  next
    case False
    with 2(2) [OF False] show ?thesis
      by (auto simp: tidy_def successively_Cons)
  qed
qed

lemma collapse_tidy: "tidy s \<Longrightarrow> collapse s = s"
proof (induction s)
  case Nil
  show ?case by simp
next
  case (Cons c cs)
  then have t: "tidy cs" by (auto simp: tidy_def successively_Cons)
  show ?case
  proof (cases "is_space c")
    case True
    with Cons.prems have "c = CHR '' ''" and "cs = [] \<or> \<not> is_space (hd cs)"
      by (auto simp: tidy_def successively_Cons)
    then have "dropWhile is_space cs = cs" by (cases cs) auto
    with True \<open>c = CHR '' ''\<close> Cons.IH [OF t] show ?thesis by simp
  next
    case False
    with Cons.IH [OF t] show ?thesis by simp
  qed
qed

lemma tidy_append: "tidy (xs @ ys) \<Longrightarrow> tidy xs \<and> tidy ys"
  by (auto simp: tidy_def successively_append_iff)

lemma tidy_rev: "tidy (rev xs) \<longleftrightarrow> tidy xs"
proof -
  have "(\<lambda>x y. \<not> (is_space y \<and> is_space x)) = (\<lambda>a b. \<not> (is_space a \<and> is_space b))"
    by (intro ext) auto
  then show ?thesis
    by (simp only: tidy_def successively_rev list_all_rev)
qed

lemma tidy_dropWhile: "tidy xs \<Longrightarrow> tidy (dropWhile P xs)"
  using tidy_append [of "takeWhile P xs" "dropWhile P xs"] by simp

lemma tidy_strip: "tidy xs \<Longrightarrow> tidy (strip xs)"
  by (simp add: strip_def tidy_rev tidy_dropWhile)

lemma strip_ends:
  "strip x = [] \<or> (\<not> is_space (hd (strip x)) \<and> \<not> is_space (last (strip x)))"
proof (cases "strip x = []")
  case True
  then show ?thesis by simp
next
  case False
  let ?y = "dropWhile is_space x"
  let ?z = "dropWhile is_space (rev ?y)"
  from False have z: "?z \<noteq> []" by (simp add: strip_def)
  then have y: "?y \<noteq> []" by (cases "dropWhile is_space x = []") simp_all
  have "\<not> is_space (hd ?z)" using z by (rule dropWhile_hd)
  then have 1: "\<not> is_space (last (strip x))" using z by (simp add: strip_def last_rev)
  have "rev ?y = takeWhile is_space (rev ?y) @ ?z" by simp
  then have "last (rev ?y) = last ?z" using z by (metis last_appendR)
  then have "last ?z = hd ?y" using y by (simp add: last_rev)
  moreover have "\<not> is_space (hd ?y)" using y by (rule dropWhile_hd)
  ultimately have "\<not> is_space (hd (strip x))" using z by (simp add: strip_def hd_rev)
  with 1 show ?thesis by simp
qed

lemma strip_strip: "strip (strip x) = strip x"
proof (cases "strip x = []")
  case True
  have "strip [] = []" by (simp add: strip_def)
  with True show ?thesis by simp
next
  case False
  with strip_ends [of x] have h: "\<not> is_space (hd (strip x))" and l: "\<not> is_space (last (strip x))"
    by simp_all
  from False h have 1: "dropWhile is_space (strip x) = strip x"
    by (cases "strip x") auto
  from False l have "\<not> is_space (hd (rev (strip x)))" by (simp add: hd_rev)
  with False have 2: "dropWhile is_space (rev (strip x)) = rev (strip x)"
    by (cases "rev (strip x)") auto
  show ?thesis
    by (subst strip_def) (simp only: 1 2 rev_rev_ident)
qed

text \<open>
  C9. \<open>clean_text\<close> is idempotent.
\<close>

theorem clean_text_idempotent: "clean_text (clean_text t) = clean_text t"
proof -
  have "tidy (strip (collapse t))" by (simp add: tidy_strip tidy_collapse)
  then have "collapse (strip (collapse t)) = strip (collapse t)" by (rule collapse_tidy)
  then show ?thesis by (simp add: clean_text_collapse strip_strip)
qed

section \<open>Skill extraction\<close>

lemma seq_Cons: "seq (r # rs) = Cat r (seq rs)"
  by (simp add: seq_def)

lemma seq_Nil: "seq [] = Eps"
  by (simp add: seq_def)

lemma word_after_marks: "word_after (p, t) = word_first (marks t)"
  by (cases t) (simp_all add: word_after_def word_first_def marks_def)

lemma ends_lits:
  "ends (seq (map LitIC s)) (p, t) =
     (if prefix (lower s) (lower t) then [advance (length s) (p, t)] else [])"
proof (induction s arbitrary: p t)
  case Nil
  show ?case by (simp add: seq_Nil lower_def)
next
  case (Cons a s)
  show ?case
  proof (cases t)
    case Nil
    then show ?thesis by (simp add: seq_Cons one_char_def lower_def)
  next
    case (Cons x xs)
    with Cons.IH [of "Some x" xs] show ?thesis
      by (auto simp: seq_Cons one_char_def lower_def)
  qed
qed

lemma ends_skill_pattern:
  "ends (skill_pattern s) st =
     (if word_before st \<noteq> word_after st \<and> prefix (lower s) (lower (snd st))
          \<and> word_before (advance (length s) st) \<noteq> word_after (advance (length s) st)
      then [advance (length s) st] else [])"
  by (cases st) (auto simp: skill_pattern_def ends_lits)

lemma lit_here_marks:
  "lit_here (lower s) (word_before (p, t)) (marks t) \<longleftrightarrow>
     prefix (lower s) (lower t)
     \<and> word_before (advance (length s) (p, t)) \<noteq> word_after (advance (length s) (p, t))"
proof (induction s arbitrary: p t)
  case Nil
  show ?case by (simp add: lower_def word_after_marks)
next
  case (Cons a s)
  show ?case
  proof (cases t)
    case Nil
    then show ?thesis by (simp add: lower_def marks_def)
  next
    case (Cons x xs)
    have "word_before (Some x, xs) = is_word x" by (simp add: word_before_def)
    with Cons.IH [of "Some x" xs] Cons show ?thesis
      by (auto simp: lower_def marks_def)
  qed
qed

lemma word_here_marks:
  "word_here (lower s) (word_before (p, t)) (marks t) \<longleftrightarrow> ends (skill_pattern s) (p, t) \<noteq> []"
proof (cases "word_before (p, t) \<noteq> word_after (p, t)")
  case True
  then have "word_here (lower s) (word_before (p, t)) (marks t)
      = lit_here (lower s) (word_before (p, t)) (marks t)"
    by (simp add: word_here_def word_after_marks)
  with True show ?thesis
    by (simp only: lit_here_marks ends_skill_pattern) auto
next
  case False
  then show ?thesis
    by (simp add: word_here_def ends_skill_pattern word_after_marks)
qed

lemma scan_marks_search:
  "scan_marks (lower s) (word_before (p, t)) (marks t) \<longleftrightarrow> search_from (skill_pattern s) p t"
proof (induction t arbitrary: p)
  case Nil
  show ?case using word_here_marks [of s p "[]"] by (simp add: marks_def)
next
  case (Cons x xs)
  have "word_before (Some x, xs) = is_word x" by (simp add: word_before_def)
  with Cons [of "Some x"] word_here_marks [of s p "x # xs"] show ?case
    by (simp add: marks_def)
qed

lemma re_search_skill: "re_search (skill_pattern s) t \<longleftrightarrow> scan_marks (lower s) False (marks t)"
  using scan_marks_search [of s None t] by (simp add: re_search_def word_before_def)

lemma add_matching_fold:
  "add_matching text (map (\<lambda>s. (s, pat s)) ss) found
     = fold set_add (filter (\<lambda>s. re_search (pat s) text) ss) found"
  by (induction ss arbitrary: found) (simp_all add: add_matching_def)

lemma set_fold_set_add: "set (fold set_add ys found) = set found \<union> set ys"
  by (induction ys arbitrary: found) (auto simp: set_add_def)

lemma distinct_fold_set_add: "distinct found \<Longrightarrow> distinct (fold set_add ys found)"
  by (induction ys arbitrary: found) (auto simp: set_add_def)

lemma fold_set_add_distinct:
  "distinct (found @ ys) \<Longrightarrow> fold set_add ys found = found @ ys"
  by (induction ys arbitrary: found) (auto simp: set_add_def)

lemma distinct_SKILLS: "distinct SKILLS"
  by (simp add: SKILLS_def)

lemma distinct_skill_order: "distinct skill_order"
  using distinct_SKILLS by (auto simp: skill_order_def)

lemma set_skill_order: "set skill_order = set SKILLS"
  by (auto simp: skill_order_def)

lemma found_skills:
  "add_matching text SINGLEWORD_SKILLS (add_matching text MULTIWORD_SKILLS [])
     = filter (\<lambda>s. re_search (skill_pattern s) text) skill_order"
proof -
  let ?m = "filter (\<lambda>s. CHR '' '' \<in> set s) SKILLS"
  let ?s = "filter (\<lambda>s. CHR '' '' \<notin> set s) SKILLS"
  let ?P = "\<lambda>s. re_search (skill_pattern s) text"
  have d: "distinct (filter ?P ?m @ filter ?P ?s)"
    using distinct_skill_order
    by (simp only: skill_order_def filter_append [symmetric] distinct_filter)
  have "add_matching text MULTIWORD_SKILLS [] = filter ?P ?m"
    using d by (simp add: MULTIWORD_SKILLS_def build_skill_patterns_def add_matching_fold
        fold_set_add_distinct)
  moreover have "add_matching text SINGLEWORD_SKILLS (filter ?P ?m) = filter ?P ?m @ filter ?P ?s"
    using d by (simp add: SINGLEWORD_SKILLS_def build_skill_patterns_def add_matching_fold
        fold_set_add_distinct)
  ultimately show ?thesis by (simp add: skill_order_def)
qed

lemma extract_skills_filter:
  "extract_skills text = sort_key lower (filter (\<lambda>s. re_search (skill_pattern s) text) skill_order)"
  by (simp add: extract_skills_def found_skills)

lemma lower_char_idem: "lower_char (lower_char c) = lower_char c"
  by (auto simp: lower_char_def is_upper_az_def in_range_def cp_def)

lemma lower_SKILLS: "s \<in> set SKILLS \<Longrightarrow> lower s = s"
  by (auto simp: SKILLS_def lower_def lower_char_def is_upper_az_def in_range_def cp_def)

text \<open>
  C4. For every text, the skills that \<open>extract_skills\<close> returns are skills of the
  vocabulary, each once, in ascending order of their lower-cased form; they are the
  skills of the vocabulary whose pattern matches somewhere in the text.
\<close>

theorem extract_skills_closed:
  "set (extract_skills text) \<subseteq> set SKILLS
   \<and> distinct (extract_skills text)
   \<and> sorted (map lower (extract_skills text))
   \<and> set (extract_skills text) = {s. s \<in> set SKILLS \<and> re_search (skill_pattern s) text}"
proof -
  have "distinct (extract_skills text)"
    using distinct_skill_order by (simp add: extract_skills_filter)
  moreover have "set (extract_skills text) = {s. s \<in> set SKILLS \<and> re_search (skill_pattern s) text}"
    by (auto simp: extract_skills_filter set_skill_order)
  moreover have "sorted (map lower (extract_skills text))"
    by (simp add: extract_skills_filter)
  ultimately show ?thesis by auto
qed

text \<open>
  The program keeps the skills it found in a set, whose order of iteration is not fixed.
  The result does not depend on it: listed in any order, the found skills sort to the
  same list, because their lower-cased forms differ.
\<close>

lemma sort_key_order_free:
  assumes "inj_on f (set xs)" "distinct xs" "distinct ys" "set ys = set xs"
  shows "sort_key f ys = sort_key f xs"
proof -
  have i: "inj_on f (set (sort_key f xs) \<union> set (sort_key f ys))" using assms by simp
  have "distinct (map f (sort_key f xs))" "distinct (map f (sort_key f ys))"
    using assms by (simp_all add: distinct_map)
  then have "map f (sort_key f ys) = map f (sort_key f xs)"
    using assms by (intro sorted_distinct_set_unique) simp_all
  with inj_on_map_eq_map [OF i] show ?thesis by auto
qed

lemma search_from_iff:
  "search_from r p t \<longleftrightarrow>
     (\<exists>pre post. t = pre @ post \<and> ends r (if pre = [] then p else Some (last pre), post) \<noteq> [])"
proof (induction t arbitrary: p)
  case Nil
  show ?case by simp
next
  case (Cons c cs)
  show ?case (is "?L \<longleftrightarrow> ?R")
  proof
    assume ?L
    then consider "ends r (p, c # cs) \<noteq> []" | "search_from r (Some c) cs" by auto
    then show ?R
    proof cases
      case 1
      then have "c # cs = [] @ (c # cs) \<and> ends r (if [] = [] then p else Some (last []), c # cs) \<noteq> []"
        by simp
      then show ?thesis by blast
    next
      case 2
      then obtain pre post where cs: "cs = pre @ post"
        and e: "ends r (if pre = [] then Some c else Some (last pre), post) \<noteq> []"
        using Cons.IH [of "Some c"] by blast
      have "c # cs = (c # pre) @ post" using cs by simp
      moreover have "ends r (if c # pre = [] then p else Some (last (c # pre)), post) \<noteq> []"
        using e by (cases "pre = []") simp_all
      ultimately show ?thesis by blast
    qed
  next
    assume ?R
    then obtain pre post where t: "c # cs = pre @ post"
      and e: "ends r (if pre = [] then p else Some (last pre), post) \<noteq> []"
      by blast
    show ?L
    proof (cases pre)
      case Nil
      with t e have "ends r (p, c # cs) \<noteq> []" by simp
      then show ?thesis by simp
    next
      case (Cons d pre')
      with t have cs: "cs = pre' @ post" and d: "d = c" by simp_all
      from e Cons d have "ends r (if pre' = [] then Some c else Some (last pre'), post) \<noteq> []"
        by (cases "pre' = []") simp_all
      with cs have "search_from r (Some c) cs" using Cons.IH [of "Some c"] by blast
      then show ?thesis by simp
    qed
  qed
qed

lemma advance_append:
  "advance (length x) (p, x @ post) = (if x = [] then p else Some (last x), post)"
  by (induction x arbitrary: p) simp_all

lemma prefix_lower_iff:
  "prefix (lower s) (lower t) \<longleftrightarrow> (\<exists>x post. t = x @ post \<and> lower x = lower s)"
proof
  assume "prefix (lower s) (lower t)"
  then obtain ys where "lower t = lower s @ ys" by (auto simp: prefix_def)
  then have "map lower_char t = map lower_char s @ ys" by (simp add: lower_def)
  then obtain x post where "t = x @ post" "map lower_char x = map lower_char s"
    by (auto simp: map_eq_append_conv)
  then show "\<exists>x post. t = x @ post \<and> lower x = lower s" by (auto simp: lower_def)
next
  assume "\<exists>x post. t = x @ post \<and> lower x = lower s"
  then show "prefix (lower s) (lower t)" by (auto simp: lower_def)
qed

lemma length_lower: "length (lower x) = length x"
  by (simp add: lower_def)

lemma re_search_skill_iff:
  "re_search (skill_pattern s) t \<longleftrightarrow>
     (\<exists>pre x post. t = pre @ x @ post \<and> lower x = lower s
        \<and> word_before (if pre = [] then None else Some (last pre), x @ post)
            \<noteq> word_after (if pre = [] then None else Some (last pre), x @ post)
        \<and> word_before (if x = [] then (if pre = [] then None else Some (last pre)) else Some (last x), post)
            \<noteq> word_after (if x = [] then (if pre = [] then None else Some (last pre)) else Some (last x), post))"
  (is "?L \<longleftrightarrow> ?R")
proof
  assume ?L
  then obtain pre rest where t: "t = pre @ rest"
    and e: "ends (skill_pattern s) (if pre = [] then None else Some (last pre), rest) \<noteq> []"
    by (auto simp: re_search_def search_from_iff)
  let ?p = "if pre = [] then None else Some (last pre)"
  from e have b: "word_before (?p, rest) \<noteq> word_after (?p, rest)"
    and pr: "prefix (lower s) (lower rest)"
    and b2: "word_before (advance (length s) (?p, rest)) \<noteq> word_after (advance (length s) (?p, rest))"
    by (auto simp: ends_skill_pattern split: if_splits)
  from pr obtain x post where r: "rest = x @ post" and l: "lower x = lower s"
    by (auto simp: prefix_lower_iff)
  from l have "length x = length s" using length_lower [of x] length_lower [of s] by simp
  with b2 r have "word_before (if x = [] then ?p else Some (last x), post)
            \<noteq> word_after (if x = [] then ?p else Some (last x), post)"
    using advance_append [of x ?p post] by simp
  with t r l b show ?R by blast
next
  assume ?R
  then obtain pre x post where t: "t = pre @ x @ post" and l: "lower x = lower s"
    and b: "word_before (if pre = [] then None else Some (last pre), x @ post)
            \<noteq> word_after (if pre = [] then None else Some (last pre), x @ post)"
    and b2: "word_before (if x = [] then (if pre = [] then None else Some (last pre)) else Some (last x), post)
            \<noteq> word_after (if x = [] then (if pre = [] then None else Some (last pre)) else Some (last x), post)"
    by blast
  let ?p = "if pre = [] then None else Some (last pre)"
  from l have n: "length s = length x" using length_lower [of x] length_lower [of s] by simp
  have pr: "prefix (lower s) (lower (x @ post))" using l by (auto simp: prefix_lower_iff)
  have "advance (length s) (?p, x @ post) = (if x = [] then ?p else Some (last x), post)"
    using advance_append [of x ?p post] n by simp
  with b b2 pr have "ends (skill_pattern s) (?p, x @ post) \<noteq> []"
    by (simp add: ends_skill_pattern)
  with t have "\<exists>pre' post'. t = pre' @ post'
      \<and> ends (skill_pattern s) (if pre' = [] then None else Some (last pre'), post') \<noteq> []"
    by blast
  then show ?L by (simp only: re_search_def search_from_iff)
qed

lemma extract_skills_order_free:
  assumes "distinct ys" "set ys = {s. s \<in> set SKILLS \<and> re_search (skill_pattern s) text}"
  shows "sort_key lower ys = extract_skills text"
proof -
  let ?found = "filter (\<lambda>s. re_search (skill_pattern s) text) skill_order"
  have "inj_on lower (set ?found)"
  proof (rule inj_onI)
    fix x y
    assume "x \<in> set ?found" "y \<in> set ?found" "lower x = lower y"
    then have "lower x = x" "lower y = y" "lower x = lower y"
      by (simp_all add: set_skill_order lower_SKILLS)
    then show "x = y" by metis
  qed
  moreover have d: "distinct ?found" using distinct_skill_order by simp
  moreover have "set ys = set ?found" using assms(2) by (auto simp: set_skill_order)
  ultimately have "sort_key lower ys = sort_key lower ?found"
    using assms(1) by (intro sort_key_order_free)
  then show ?thesis by (simp only: extract_skills_filter)
qed

section \<open>Evaluation on concrete texts\<close>

lemma lit_step_eq: "lit_step b s wb z = (if b then lit_here s wb z else False)"
  and lit_fast_eq: "lit_fast s wb z = lit_here s wb z"
  by (induction b s wb z and s wb z rule: lit_step_lit_fast.induct)
     (auto simp: word_first_def)

lemma scan_step_eq: "scan_step b s wb z = (if b then True else scan_marks s wb z)"
  and scan_fast_eq: "scan_fast s wb z = scan_marks s wb z"
  by (induction b s wb z and s wb z rule: scan_step_scan_fast.induct)
     (auto simp: word_here_def word_first_def lit_fast_eq lit_step_eq)

lemma is_space_cp:
  "is_space c = (let n = cp c in 9 \<le> n \<and> n \<le> 13 \<or> 28 \<le> n \<and> n \<le> 32 \<or> n = 133 \<or> n = 160)"
  by (simp add: is_space_def in_range_def Let_def)

lemma is_digit_cp: "is_digit c = (let n = cp c in 48 \<le> n \<and> n \<le> 57)"
  by (simp add: is_digit_def in_range_def Let_def)

lemma az_cp: "az c = (let n = cp c in 65 \<le> n \<and> n \<le> 90 \<or> 97 \<le> n \<and> n \<le> 122)"
  by (simp add: az_def is_upper_az_def is_lower_az_def in_range_def Let_def)

lemma az09_cp:
  "az09 c = (let n = cp c in 65 \<le> n \<and> n \<le> 90 \<or> 97 \<le> n \<and> n \<le> 122 \<or> 48 \<le> n \<and> n \<le> 57)"
  by (auto simp: az09_def az_cp in_range_def Let_def)

lemma is_word_cp:
  "is_word c = (let n = cp c in 48 \<le> n \<and> n \<le> 57 \<or> 65 \<le> n \<and> n \<le> 90 \<or> 97 \<le> n \<and> n \<le> 122
     \<or> n = 95 \<or> n = 170 \<or> n = 178 \<or> n = 179 \<or> n = 181 \<or> n = 185 \<or> n = 186
     \<or> 188 \<le> n \<and> n \<le> 190 \<or> 192 \<le> n \<and> n \<le> 214 \<or> 216 \<le> n \<and> n \<le> 246
     \<or> 248 \<le> n \<and> n \<le> 255)"
  by (simp add: is_word_def is_digit_def is_upper_az_def is_lower_az_def in_range_def Let_def)

lemma lower_char_cp:
  "lower_char c = (let n = cp c in
     if 65 \<le> n \<and> n \<le> 90 \<or> 192 \<le> n \<and> n \<le> 214 \<or> 216 \<le> n \<and> n \<le> 222
     then char_of (n + 32) else c)"
  by (simp add: lower_char_def is_upper_az_def in_range_def Let_def)

lemma in_range_cp: "in_range lo hi c = (let n = cp c in lo \<le> n \<and> n \<le> hi)"
  by (simp add: in_range_def Let_def)

lemmas char_eval = is_space_cp is_digit_cp az_cp az09_cp is_word_cp lower_char_cp in_range_cp
  cp_def Let_def char_of_def bit_Suc_0_iff

lemmas re_eval = re_findall_def re_sub_def match_len_def one_char_def
  word_before_def word_after_def rep_counts_def seq_def findall_from.simps sub_from.simps

lemma re_search_fast: "re_search (skill_pattern s) t = scan_fast (lower s) False (marks t)"
  by (simp add: re_search_skill scan_fast_eq)

lemmas skills_eval = extract_skills_filter re_search_fast skill_order_def SKILLS_def marks_def
  lower_def

section \<open>Skills that end in a symbol\<close>

lemma cp_lt_256: "cp c < 256"
  by (simp add: cp_def)

lemma cp_eq_iff: "cp a = cp b \<longleftrightarrow> a = b"
  by (simp add: cp_def)

lemma cp_lower_char:
  "cp (lower_char c) =
     (if is_upper_az c \<or> in_range 0xC0 0xD6 c \<or> in_range 0xD8 0xDE c then cp c + 32 else cp c)"
  by (auto simp: lower_char_def is_upper_az_def in_range_def cp_def)

lemma lower_char_eq_plus: "lower_char c = CHR ''+'' \<longleftrightarrow> c = CHR ''+''"
proof -
  have "lower_char c = CHR ''+'' \<longleftrightarrow> cp (lower_char c) = 43"
    by (simp add: cp_eq_iff [symmetric] cp_def)
  also have "\<dots> \<longleftrightarrow> cp c = 43"
    by (auto simp: cp_lower_char is_upper_az_def in_range_def)
  also have "\<dots> \<longleftrightarrow> c = CHR ''+''"
    by (simp add: cp_eq_iff [symmetric] cp_def)
  finally show ?thesis .
qed

lemma lower_char_eq_hash: "lower_char c = CHR ''#'' \<longleftrightarrow> c = CHR ''#''"
proof -
  have "lower_char c = CHR ''#'' \<longleftrightarrow> cp (lower_char c) = 35"
    by (simp add: cp_eq_iff [symmetric] cp_def)
  also have "\<dots> \<longleftrightarrow> cp c = 35"
    by (auto simp: cp_lower_char is_upper_az_def in_range_def)
  also have "\<dots> \<longleftrightarrow> c = CHR ''#''"
    by (simp add: cp_eq_iff [symmetric] cp_def)
  finally show ?thesis .
qed

lemma lower_char_eq_c: "lower_char a = CHR ''c'' \<Longrightarrow> is_word a"
proof -
  assume "lower_char a = CHR ''c''"
  then have "cp (lower_char a) = 99" by (simp add: cp_def)
  then have "cp a = 67 \<or> cp a = 99"
    by (auto simp: cp_lower_char split: if_splits)
  then show "is_word a"
    by (auto simp: is_word_def is_upper_az_def is_lower_az_def in_range_def)
qed

lemma not_word_plus_hash: "\<not> is_word CHR ''+''" "\<not> is_word CHR ''#''"
  by (simp_all add: char_eval)

lemma lower_cpp:
  "lower x = ''c++'' \<Longrightarrow> x \<noteq> [] \<and> is_word (hd x) \<and> \<not> is_word (last x)"
  by (auto simp: lower_def map_eq_Cons_conv lower_char_eq_plus lower_char_eq_c not_word_plus_hash)

lemma lower_csharp:
  "lower x = ''c#'' \<Longrightarrow> x \<noteq> [] \<and> is_word (hd x) \<and> \<not> is_word (last x)"
  by (auto simp: lower_def map_eq_Cons_conv lower_char_eq_hash lower_char_eq_c not_word_plus_hash)

lemma trailing_symbol_search:
  assumes "\<And>x. lower x = lower s \<Longrightarrow> x \<noteq> [] \<and> is_word (hd x) \<and> \<not> is_word (last x)"
  shows "re_search (skill_pattern s) t \<longleftrightarrow>
     (\<exists>pre x w post. t = pre @ x @ w # post \<and> lower x = lower s \<and> is_word w
        \<and> (pre = [] \<or> \<not> is_word (last pre)))"
  (is "?L \<longleftrightarrow> ?R")
proof
  assume ?L
  then obtain pre x post where t: "t = pre @ x @ post" and l: "lower x = lower s"
    and b: "word_before (if pre = [] then None else Some (last pre), x @ post)
            \<noteq> word_after (if pre = [] then None else Some (last pre), x @ post)"
    and b2: "word_before (if x = [] then (if pre = [] then None else Some (last pre)) else Some (last x), post)
            \<noteq> word_after (if x = [] then (if pre = [] then None else Some (last pre)) else Some (last x), post)"
    unfolding re_search_skill_iff by blast
  from assms [OF l] have x: "x \<noteq> []" "is_word (hd x)" "\<not> is_word (last x)" by simp_all
  from x have "word_after (if pre = [] then None else Some (last pre), x @ post)"
    by (cases x) (simp_all add: word_after_def)
  with b have p: "pre = [] \<or> \<not> is_word (last pre)"
    by (auto simp: word_before_def split: if_splits)
  from x b2 have "word_after (Some (last x), post)"
    by (simp add: word_before_def)
  then obtain w post' where "post = w # post'" "is_word w"
    by (cases post) (simp_all add: word_after_def)
  with t l p show ?R by blast
next
  assume ?R
  then obtain pre x w post where t: "t = pre @ x @ w # post" and l: "lower x = lower s"
    and w: "is_word w" and p: "pre = [] \<or> \<not> is_word (last pre)"
    by blast
  from assms [OF l] have x: "x \<noteq> []" "is_word (hd x)" "\<not> is_word (last x)" by simp_all
  from x have "word_after (if pre = [] then None else Some (last pre), x @ w # post)"
    by (cases x) (simp_all add: word_after_def)
  with p have b: "word_before (if pre = [] then None else Some (last pre), x @ w # post)
            \<noteq> word_after (if pre = [] then None else Some (last pre), x @ w # post)"
    by (auto simp: word_before_def)
  from x w have b2: "word_before (if x = [] then (if pre = [] then None else Some (last pre)) else Some (last x), w # post)
            \<noteq> word_after (if x = [] then (if pre = [] then None else Some (last pre)) else Some (last x), w # post)"
    by (simp add: word_before_def word_after_def)
  from t l b b2 show ?L unfolding re_search_skill_iff by blast
qed

lemma set_extract_skills:
  "set (extract_skills text) = {s. s \<in> set SKILLS \<and> re_search (skill_pattern s) text}"
  by (auto simp: extract_skills_filter set_skill_order)

lemma cpp_csharp_in_SKILLS: "''c++'' \<in> set SKILLS" "''c#'' \<in> set SKILLS"
  by (simp_all add: SKILLS_def)

lemma lower_cpp_csharp: "lower ''c++'' = ''c++''" "lower ''c#'' = ''c#''"
  by (simp_all add: lower_def char_eval)

lemma cpp_dot_follow:
  "\<forall>pre x post. ''C++.'' = pre @ x @ post \<and> lower x = ''c++'' \<longrightarrow> post = [] \<or> \<not> is_word (hd post)"
proof (intro allI impI)
  fix pre x post :: string
  assume a: "''C++.'' = pre @ x @ post \<and> lower x = ''c++''"
  then have l: "length x = 3" using length_lower [of x] by simp
  from a have "length ''C++.'' = length (pre @ x @ post)" by simp
  with l have n: "length pre + length post = 1" by simp
  from a have xp: "x @ post = drop (length pre) ''C++.''"
    by (metis append_eq_conv_conj)
  then have x: "x = take 3 (drop (length pre) ''C++.'')"
    and p: "post = drop 3 (drop (length pre) ''C++.'')"
    using l by (metis append_eq_conv_conj)+
  from n consider "length pre = 0" | "length pre = 1" by linarith
  then show "post = [] \<or> \<not> is_word (hd post)"
  proof cases
    case 1
    with p have "post = ''.''" by simp
    then show ?thesis by (simp add: char_eval)
  next
    case 2
    with x have "x = ''++.''" by simp
    with a show ?thesis by (simp add: lower_def char_eval)
  qed
qed

text \<open>
  C10. A skill of the vocabulary that ends in a character that is not a word character
  is found only where a word character follows it at once. \<open>c++\<close> is among the skills
  extracted from a text exactly when the text holds \<open>c++\<close>, in any letter case, that
  neither follows a word character nor is at once followed by anything but one; hence
  it is absent from the result when no occurrence of it is followed by a word character.
  The same holds of \<open>c#\<close>. On the text \<open>c++\<close> the result is the skill \<open>c\<close> alone.
\<close>

theorem trailing_symbol_skills:
  "extract_skills ''c++'' = [''c'']
   \<and> (''c++'' \<in> set (extract_skills t) \<longleftrightarrow>
        (\<exists>pre x w post. t = pre @ x @ w # post \<and> lower x = ''c++'' \<and> is_word w
           \<and> (pre = [] \<or> \<not> is_word (last pre))))
   \<and> (''c#'' \<in> set (extract_skills t) \<longleftrightarrow>
        (\<exists>pre x w post. t = pre @ x @ w # post \<and> lower x = ''c#'' \<and> is_word w
           \<and> (pre = [] \<or> \<not> is_word (last pre))))
   \<and> ((\<forall>pre x post. t = pre @ x @ post \<and> lower x = ''c++''
          \<longrightarrow> post = [] \<or> \<not> is_word (hd post))
        \<longrightarrow> ''c++'' \<notin> set (extract_skills t))
   \<and> ((\<forall>pre x post. t = pre @ x @ post \<and> lower x = ''c#''
          \<longrightarrow> post = [] \<or> \<not> is_word (hd post))
        \<longrightarrow> ''c#'' \<notin> set (extract_skills t))
   \<and> extract_skills ''I know C++, C# and more.'' = [''c'']
   \<and> extract_skills ''C++x c#1'' = [''c'', ''c#'', ''c++'']"
proof -
  have cpp: "''c++'' \<in> set (extract_skills t) \<longleftrightarrow>
        (\<exists>pre x w post. t = pre @ x @ w # post \<and> lower x = ''c++'' \<and> is_word w
           \<and> (pre = [] \<or> \<not> is_word (last pre)))"
    using trailing_symbol_search [of "''c++''" t] lower_cpp
    by (simp only: set_extract_skills mem_Collect_eq cpp_csharp_in_SKILLS lower_cpp_csharp simp_thms)
  have cs: "''c#'' \<in> set (extract_skills t) \<longleftrightarrow>
        (\<exists>pre x w post. t = pre @ x @ w # post \<and> lower x = ''c#'' \<and> is_word w
           \<and> (pre = [] \<or> \<not> is_word (last pre)))"
    using trailing_symbol_search [of "''c#''" t] lower_csharp
    by (simp only: set_extract_skills mem_Collect_eq cpp_csharp_in_SKILLS lower_cpp_csharp simp_thms)
  have cpp_absent: "''c++'' \<notin> set (extract_skills t)"
    if h: "\<forall>pre x post. t = pre @ x @ post \<and> lower x = ''c++''
          \<longrightarrow> post = [] \<or> \<not> is_word (hd post)"
  proof
    assume "''c++'' \<in> set (extract_skills t)"
    with cpp obtain pre x w post where "t = pre @ x @ w # post" "lower x = ''c++''" "is_word w"
      by blast
    with h [rule_format, of pre x "w # post"] show False by simp
  qed
  have cs_absent: "''c#'' \<notin> set (extract_skills t)"
    if h: "\<forall>pre x post. t = pre @ x @ post \<and> lower x = ''c#''
          \<longrightarrow> post = [] \<or> \<not> is_word (hd post)"
  proof
    assume "''c#'' \<in> set (extract_skills t)"
    with cs obtain pre x w post where "t = pre @ x @ w # post" "lower x = ''c#''" "is_word w"
      by blast
    with h [rule_format, of pre x "w # post"] show False by simp
  qed
  have e1: "extract_skills ''c++'' = [''c'']"
    by (simp add: skills_eval char_eval)
  have e2: "extract_skills ''I know C++, C# and more.'' = [''c'']"
    by (simp add: skills_eval char_eval)
  have e3: "extract_skills ''C++x c#1'' = [''c'', ''c#'', ''c++'']"
    by (simp add: skills_eval char_eval)
  from cpp cs cpp_absent cs_absent e1 e2 e3 show ?thesis by blast
qed

theorem trailing_symbol_skills_witness:
  "''c++'' \<notin> set (extract_skills ''C++.'') \<and> extract_skills ''C++.'' = [''c'']"
proof -
  have e: "extract_skills ''C++.'' = [''c'']"
    by (simp add: skills_eval char_eval)
  note r = trailing_symbol_skills [of "''C++.''", THEN conjunct2, THEN conjunct2, THEN conjunct2,
      THEN conjunct1, rule_format]
  from r cpp_dot_follow e show ?thesis by blast
qed

section \<open>The scenario of the specification\<close>

lemma scenario_clean: "clean_text scenario_text = scenario_text"
  by (simp add: clean_text_collapse strip_def scenario_text_def char_eval)

lemma clean_line_clean_text: "clean_line ln = clean_text ln"
  by (simp add: clean_line_def clean_text_def)

lemma scenario_split: "split_nl scenario_text = [scenario_text]"
  by (simp add: scenario_text_def)

lemma scenario_length: "length scenario_text = 117"
  by (simp add: scenario_text_def)

lemma scenario_nonempty: "scenario_text \<noteq> []"
  using scenario_length by auto

lemma scenario_keep_lines: "clean_text_keep_lines scenario_text = scenario_text"
  by (simp add: clean_text_keep_lines_def scenario_split clean_line_clean_text scenario_clean
      scenario_nonempty)

lemma scenario_skills: "extract_skills scenario_text = [''python'', ''sql'']"
  by (simp add: skills_eval scenario_text_def char_eval)

lemma scenario_basic_info:
  "extract_basic_info scenario_text =
     \<lparr>info_email = ''jane.doe@example.com'', info_emails = [''jane.doe@example.com''],
      info_phone = ''+91 9876543210'', info_phones = [''+91 9876543210'']\<rparr>"
  by (simp add: extract_basic_info_def fromkeys_def EMAIL_REGEX_def PHONE_REGEX_def
      scenario_text_def char_eval re_eval)

lemma scenario_strip: "strip scenario_text = scenario_text"
  by (simp add: strip_def scenario_text_def char_eval)

lemma scenario_edu: "any_kw EDU_KEYWORDS (lower scenario_text)"
  by (simp add: any_kw_def EDU_KEYWORDS_def lower_def scenario_text_def char_eval)

lemma scenario_sections: "extract_sections scenario_text = ([scenario_text], [])"
proof -
  have "section_lines scenario_text = [scenario_text]"
    by (simp add: section_lines_def scenario_split scenario_strip scenario_nonempty)
  moreover have "classify_line scenario_text ([], []) = ([scenario_text], [])"
    using scenario_edu by (simp add: classify_line_def Let_def length_lower scenario_length)
  ultimately show ?thesis
    by (simp add: extract_sections_def Let_def dedup_first_occ)
qed

lemma scenario_no_read_error: "\<not> startswith_any scenario_text READ_ERRORS"
  by (simp add: startswith_any_READ_ERRORS scenario_text_def)

lemma scenario_record:
  "(parse_resume scenario_text :: 'i resume) =
     \<lparr>error = None, parsed_data = None,
      contact = Some \<lparr>email = ''jane.doe@example.com'', phone = ''+91 9876543210'',
                       all_emails = [''jane.doe@example.com''],
                       all_phones = [''+91 9876543210'']\<rparr>,
      skills = Some [''python'', ''sql''],
      education = Some [scenario_text],
      experience = Some [],
      summary = Some \<lparr>total_skills_found = 2, education_lines = 1, experience_lines = 0,
                       raw_text_length = 117\<rparr>,
      file_info = None\<rparr>"
  by (simp add: parse_resume_def parse_with_def scenario_no_read_error scenario_clean
      scenario_keep_lines scenario_basic_info scenario_skills scenario_sections scenario_length
      no_keys_def Let_def)

text \<open>
  C1. The scenario text is a single line and begins with no read-failure prefix. The
  record that \<open>parse_resume\<close> builds from it has the primary email
  \<open>jane.doe@example.com\<close>, the primary phone \<open>+91 9876543210\<close>, whose digits include
  \<open>9876543210\<close>, the skills \<open>python\<close> and \<open>sql\<close> in that order, one education line,
  which is the whole text, and no experience line: the only line of the text holds an
  education keyword, and such a line goes to the education list alone.
\<close>

theorem parse_scenario:
  "\<not> startswith_any scenario_text READ_ERRORS
   \<and> contact (parse_resume scenario_text :: 'i resume)
       = Some \<lparr>email = ''jane.doe@example.com'', phone = ''+91 9876543210'',
                all_emails = [''jane.doe@example.com''], all_phones = [''+91 9876543210'']\<rparr>
   \<and> sublist ''9876543210'' ''+91 9876543210''
   \<and> skills (parse_resume scenario_text :: 'i resume) = Some [''python'', ''sql'']
   \<and> education (parse_resume scenario_text :: 'i resume) = Some [scenario_text]
   \<and> experience (parse_resume scenario_text :: 'i resume) = Some []
   \<and> error (parse_resume scenario_text :: 'i resume) = None
   \<and> summary (parse_resume scenario_text :: 'i resume)
       = Some \<lparr>total_skills_found = 2, education_lines = 1, experience_lines = 0,
                raw_text_length = 117\<rparr>"
proof -
  have "sublist ''9876543210'' (''+91 '' @ ''9876543210'' @ [])"
    by (rule sublist_appendI)
  then have "sublist ''9876543210'' ''+91 9876543210''" by simp
  then show ?thesis
    by (simp add: scenario_record scenario_no_read_error)
qed

text \<open>
  The record does not have one experience line together with the rest of what the
  scenario lists.
\<close>

theorem parse_scenario_counterexample:
  "\<not> (\<exists>c ed ex.
        contact (parse_resume scenario_text :: unit resume) = Some c
        \<and> email c = ''jane.doe@example.com''
        \<and> sublist ''9876543210'' (phone c)
        \<and> skills (parse_resume scenario_text :: unit resume) = Some [''python'', ''sql'']
        \<and> education (parse_resume scenario_text :: unit resume) = Some ed \<and> length ed = 1
        \<and> experience (parse_resume scenario_text :: unit resume) = Some ex \<and> length ex = 1)"
  by (simp add: scenario_record)

end
